theory Spec2Isabelle
  imports Complex_Main
begin

section \<open>The progress bar of gentics-ui-core\<close>

text \<open>
  A shallow embedding of \<^verbatim>\<open>src/components/progress-bar/progress-bar.component.ts\<close>.
  The class \<^verbatim>\<open>ProgressBar\<close> is a record of its private fields; the browser it talks to
  (animation frames, \<^verbatim>\<open>transitionend\<close> listeners, promises, subscriptions, the clock) is
  a second group of fields of the same record. Every method is a function from state to
  state; every callback the class registers is a constructor of a datatype, run by
  \<open>step\<close> when the browser delivers the matching event.
\<close>

subsection \<open>JavaScript numbers\<close>

text \<open>
  A JavaScript number is a real, an infinity or \<^verbatim>\<open>NaN\<close>. The rounding of IEEE doubles,
  overflow of finite results and the sign of zero are not modelled: finite arithmetic is
  exact, and a zero denominator counts as \<^verbatim>\<open>+0\<close>.
\<close>

datatype number = NaN | NegInfinity | Fin real | PosInfinity

fun js_neg :: "number \<Rightarrow> number" where
  "js_neg NaN = NaN"
| "js_neg NegInfinity = PosInfinity"
| "js_neg (Fin a) = Fin (- a)"
| "js_neg PosInfinity = NegInfinity"

fun js_add :: "number \<Rightarrow> number \<Rightarrow> number" where
  "js_add (Fin a) (Fin b) = Fin (a + b)"
| "js_add NaN _ = NaN"
| "js_add _ NaN = NaN"
| "js_add PosInfinity NegInfinity = NaN"
| "js_add NegInfinity PosInfinity = NaN"
| "js_add PosInfinity _ = PosInfinity"
| "js_add _ PosInfinity = PosInfinity"
| "js_add NegInfinity _ = NegInfinity"
| "js_add _ NegInfinity = NegInfinity"

definition js_sub :: "number \<Rightarrow> number \<Rightarrow> number" where
  "js_sub a b = js_add a (js_neg b)"

text \<open>The sign of a number that is not \<^verbatim>\<open>NaN\<close>: \<open>-1\<close>, \<open>0\<close> or \<open>1\<close>.\<close>

fun js_sign :: "number \<Rightarrow> int" where
  "js_sign NaN = 0"
| "js_sign NegInfinity = - 1"
| "js_sign (Fin a) = (if a < 0 then - 1 else if a = 0 then 0 else 1)"
| "js_sign PosInfinity = 1"

definition signed_infinity :: "int \<Rightarrow> number" where
  "signed_infinity i = (if i = 0 then NaN else if i < 0 then NegInfinity else PosInfinity)"

fun js_mul :: "number \<Rightarrow> number \<Rightarrow> number" where
  "js_mul (Fin a) (Fin b) = Fin (a * b)"
| "js_mul NaN _ = NaN"
| "js_mul _ NaN = NaN"
| "js_mul a b = signed_infinity (js_sign a * js_sign b)"

fun js_div :: "number \<Rightarrow> number \<Rightarrow> number" where
  "js_div (Fin a) (Fin b) = (if b = 0 then signed_infinity (js_sign (Fin a)) else Fin (a / b))"
| "js_div NaN _ = NaN"
| "js_div _ NaN = NaN"
| "js_div (Fin a) _ = Fin 0"
| "js_div a (Fin b) = signed_infinity (js_sign a * (if b < 0 then - 1 else 1))"
| "js_div _ _ = NaN"

text \<open>\<^verbatim>\<open>Math.sqrt\<close>, and \<^verbatim>\<open>Math.pow(x, 2)\<close> (the only exponent the class uses).\<close>

fun Math_sqrt :: "number \<Rightarrow> number" where
  "Math_sqrt (Fin a) = (if a < 0 then NaN else Fin (sqrt a))"
| "Math_sqrt PosInfinity = PosInfinity"
| "Math_sqrt _ = NaN"

fun Math_pow2 :: "number \<Rightarrow> number" where
  "Math_pow2 (Fin a) = Fin (a\<^sup>2)"
| "Math_pow2 NaN = NaN"
| "Math_pow2 _ = PosInfinity"

text \<open>The comparisons \<^verbatim>\<open><\<close> and \<^verbatim>\<open>==\<close> (on numbers, also \<^verbatim>\<open>===\<close>): false when a side is \<^verbatim>\<open>NaN\<close>.\<close>

fun js_lt :: "number \<Rightarrow> number \<Rightarrow> bool" where
  "js_lt NaN _ = False"
| "js_lt _ NaN = False"
| "js_lt (Fin a) (Fin b) = (a < b)"
| "js_lt _ NegInfinity = False"
| "js_lt NegInfinity _ = True"
| "js_lt PosInfinity _ = False"
| "js_lt _ PosInfinity = True"

definition js_eq :: "number \<Rightarrow> number \<Rightarrow> bool" where
  "js_eq a b = (a \<noteq> NaN \<and> b \<noteq> NaN \<and> a = b)"

definition Math_min :: "number \<Rightarrow> number \<Rightarrow> number" where
  "Math_min a b = (if a = NaN \<or> b = NaN then NaN else if js_lt b a then b else a)"

definition Math_max :: "number \<Rightarrow> number \<Rightarrow> number" where
  "Math_max a b = (if a = NaN \<or> b = NaN then NaN else if js_lt a b then b else a)"

text \<open>Truthiness of a number: \<^verbatim>\<open>0\<close> and \<^verbatim>\<open>NaN\<close> are falsy.\<close>

definition truthy :: "number \<Rightarrow> bool" where
  "truthy a = (a \<noteq> NaN \<and> a \<noteq> Fin 0)"

subsection \<open>Closures, callbacks and sources\<close>

text \<open>
  Each call of \<^verbatim>\<open>fadeOutProgressBar\<close> or \<^verbatim>\<open>transitionTo100Percent\<close> creates a fresh
  \<^verbatim>\<open>callback\<close> closure (and a promise); the number it carries tells the closures of
  different calls apart, as object identity does for \<^verbatim>\<open>removeEventListener\<close>.
\<close>

datatype element = Wrapper | Indicator

datatype listener = FadeOutCallback nat | TransitionCallback nat

datatype frame_callback = AnimateIndeterminate | WaitUntilDone nat

text \<open>The values the field \<^verbatim>\<open>removePendingHandler\<close> takes: \<^verbatim>\<open>noop\<close> and the three closures
  assigned to it.\<close>

datatype pending_handler =
    NoopHandler
  | RemoveWrapperListener nat
  | RemoveIndicatorListener nat
  | CancelFrameRequest nat

text \<open>The values of \<^verbatim>\<open>cleanupSubscription\<close>: \<^verbatim>\<open>noop\<close>, the closure that clears the
  \<^verbatim>\<open>observing\<close> flag of a promise binding, and the one that unsubscribes.\<close>

datatype cleanup_closure = NoopCleanup | StopObserving nat | Unsubscribe nat

text \<open>A binding made by \<^verbatim>\<open>start\<close>: the \<^verbatim>\<open>observing\<close> flag of a promise's callbacks, or
  whether a subscription is still open.\<close>

datatype binding = PromiseBinding bool | StreamBinding bool

fun live :: "binding \<Rightarrow> bool" where
  "live (PromiseBinding observing) = observing"
| "live (StreamBinding opened) = opened"

datatype js_value = JSNumber number | JSOther string

text \<open>How a promise settles, and what a subscribable tells its subscriber.\<close>

datatype outcome = Fulfilled js_value | Rejected js_value

datatype notification = OnNext js_value | OnError js_value | OnComplete

text \<open>
  The object handed to \<^verbatim>\<open>start\<close> or \<^verbatim>\<open>for\<close>: what the duck-typing tests look at, and
  what the object calls back before its \<^verbatim>\<open>then\<close> or \<^verbatim>\<open>subscribe\<close> returns. A native promise
  calls nothing back inside \<^verbatim>\<open>then\<close> (its callbacks run as a later task), another
  thenable may. A subscribable delivers inside \<^verbatim>\<open>subscribe\<close> what it already holds
  (\<^verbatim>\<open>BehaviorSubject\<close>, \<^verbatim>\<open>ReplaySubject\<close>, \<^verbatim>\<open>Observable.of\<close>); what it delivers after
  \<^verbatim>\<open>subscribe\<close> has returned arrives as a later event.
\<close>

datatype source =
  Source (has_then: bool) (has_subscribe: bool)
         (calls_in_then: "outcome list") (calls_in_subscribe: "notification list")

datatype speed_input = SpeedString string | SpeedNumber number

subsection \<open>The state\<close>

record ProgressBar =
  isActive :: bool
  progressPercentage :: number
  progressBarVisible :: bool
  indeterminateSpeed :: number
  determinate :: bool
  animationRequest :: "nat option"
  lastAnimationFrame :: "number option"
  removePendingHandler :: pending_handler
  cleanupSubscription :: cleanup_closure
  \<comment> \<open>the browser\<close>
  clock :: real
  frames :: "(nat \<times> frame_callback) list"
  nextFrame :: nat
  listeners :: "(element \<times> listener) list"
  nextClosure :: nat
  reactions :: "nat list"
  resolved :: "nat list"
  bindings :: "binding list"
  settled :: "nat list"

text \<open>
  \<open>clock\<close> is what \<^verbatim>\<open>performance.now()\<close> returns; \<open>frames\<close> the pending
  \<^verbatim>\<open>requestAnimationFrame\<close> callbacks with their handles (handles start at 1);
  \<open>listeners\<close> the registered \<^verbatim>\<open>transitionend\<close> listeners; \<open>reactions\<close> the promises of
  \<^verbatim>\<open>transitionTo100Percent\<close> to which \<^verbatim>\<open>complete\<close> has attached its \<^verbatim>\<open>then\<close>; \<open>resolved\<close>
  the ones already resolved; \<open>bindings\<close> the bindings made so far, a binding's number
  being its index; \<open>settled\<close> the promise bindings whose callback has run.
\<close>

definition initial :: ProgressBar where
  "initial = \<lparr> isActive = False, progressPercentage = Fin 0, progressBarVisible = False,
     indeterminateSpeed = Fin 500, determinate = False, animationRequest = None,
     lastAnimationFrame = None, removePendingHandler = NoopHandler,
     cleanupSubscription = NoopCleanup,
     clock = 0, frames = [], nextFrame = 1, listeners = [], nextClosure = 0,
     reactions = [], resolved = [], bindings = [], settled = [] \<rparr>"

subsection \<open>Browser primitives\<close>

definition requestAnimationFrame :: "frame_callback \<Rightarrow> ProgressBar \<Rightarrow> nat \<times> ProgressBar" where
  "requestAnimationFrame cb s =
     (nextFrame s, s\<lparr> frames := frames s @ [(nextFrame s, cb)], nextFrame := Suc (nextFrame s) \<rparr>)"

definition cancelAnimationFrame :: "nat \<Rightarrow> ProgressBar \<Rightarrow> ProgressBar" where
  "cancelAnimationFrame h s = s\<lparr> frames := filter (\<lambda>(i, cb). i \<noteq> h) (frames s) \<rparr>"

definition addEventListener :: "element \<Rightarrow> listener \<Rightarrow> ProgressBar \<Rightarrow> ProgressBar" where
  "addEventListener el cb s =
     (if (el, cb) \<in> set (listeners s) then s else s\<lparr> listeners := listeners s @ [(el, cb)] \<rparr>)"

definition removeEventListener :: "element \<Rightarrow> listener \<Rightarrow> ProgressBar \<Rightarrow> ProgressBar" where
  "removeEventListener el cb s = s\<lparr> listeners := filter (\<lambda>l. l \<noteq> (el, cb)) (listeners s) \<rparr>"

subsection \<open>The methods of the class\<close>

text \<open>
  Calling the closure stored in \<^verbatim>\<open>removePendingHandler\<close>. The closure of the
  non-determinate branch of \<^verbatim>\<open>transitionTo100Percent\<close> cancels the handle in its variable
  \<^verbatim>\<open>frameRequest\<close>, which is the handle of the pending \<^verbatim>\<open>waitUntilDone\<close> frame of that call
  when there is one, and a spent handle or \<^verbatim>\<open>undefined\<close> otherwise: it removes exactly
  the pending frames of that \<^verbatim>\<open>waitUntilDone\<close>.
\<close>

definition call_removePendingHandler :: "ProgressBar \<Rightarrow> ProgressBar" where
  "call_removePendingHandler s =
     (case removePendingHandler s of
        NoopHandler \<Rightarrow> s
      | RemoveWrapperListener k \<Rightarrow>
          (removeEventListener Wrapper (FadeOutCallback k) s)\<lparr> removePendingHandler := NoopHandler \<rparr>
      | RemoveIndicatorListener k \<Rightarrow>
          (removeEventListener Indicator (TransitionCallback k) s)\<lparr> removePendingHandler := NoopHandler \<rparr>
      | CancelFrameRequest k \<Rightarrow>
          s\<lparr> frames := filter (\<lambda>(i, cb). cb \<noteq> WaitUntilDone k) (frames s),
             removePendingHandler := NoopHandler \<rparr>)"

definition call_cleanupSubscription :: "ProgressBar \<Rightarrow> ProgressBar" where
  "call_cleanupSubscription s =
     (case cleanupSubscription s of
        NoopCleanup \<Rightarrow> s
      | StopObserving k \<Rightarrow>
          s\<lparr> bindings := (bindings s)[k := PromiseBinding False], cleanupSubscription := NoopCleanup \<rparr>
      | Unsubscribe k \<Rightarrow>
          s\<lparr> bindings := (bindings s)[k := StreamBinding False], cleanupSubscription := NoopCleanup \<rparr>)"

definition fadeOutProgressBar :: "ProgressBar \<Rightarrow> ProgressBar" where
  "fadeOutProgressBar s0 =
     (let s = call_removePendingHandler s0;
          k = nextClosure s;
          s = s\<lparr> nextClosure := Suc k \<rparr>;
          s = s\<lparr> removePendingHandler := RemoveWrapperListener k \<rparr>;
          s = addEventListener Wrapper (FadeOutCallback k) s
      in s\<lparr> progressBarVisible := False \<rparr>)"

text \<open>Returns the number of the promise it creates, with the new state.\<close>

definition transitionTo100Percent :: "ProgressBar \<Rightarrow> nat \<times> ProgressBar" where
  "transitionTo100Percent s0 =
     (let s = call_removePendingHandler s0;
          k = nextClosure s;
          s = s\<lparr> nextClosure := Suc k \<rparr>
      in if determinate s then
           (let s = s\<lparr> removePendingHandler := RemoveIndicatorListener k \<rparr>;
                s = addEventListener Indicator (TransitionCallback k) s
            in (k, s\<lparr> progressPercentage := Fin 100 \<rparr>))
         else
           (let (frameRequest, s) = requestAnimationFrame (WaitUntilDone k) s
            in (k, s\<lparr> removePendingHandler := CancelFrameRequest k \<rparr>)))"

definition complete :: "ProgressBar \<Rightarrow> ProgressBar" where
  "complete s0 =
     (if isActive s0 then
        (let s = s0\<lparr> isActive := False \<rparr> in
         if determinate s then
           (if js_eq (progressPercentage s) (Fin 100) then fadeOutProgressBar s
            else (let (p, s) = transitionTo100Percent s in s\<lparr> reactions := p # reactions s \<rparr>))
         else s)
      else s0)"

text \<open>
  Resolving the promise of \<^verbatim>\<open>transitionTo100Percent\<close> call \<open>p\<close>. A promise resolves once.
  The \<^verbatim>\<open>then\<close> of \<^verbatim>\<open>complete\<close> runs \<^verbatim>\<open>fadeOutProgressBar\<close> as a microtask; \<^verbatim>\<open>resolve\<close> is the
  last statement of both callbacks that call it, so the microtask runs right after it.
\<close>

definition resolve :: "nat \<Rightarrow> ProgressBar \<Rightarrow> ProgressBar" where
  "resolve p s0 =
     (if p \<in> set (resolved s0) then s0
      else (let s = s0\<lparr> resolved := p # resolved s0 \<rparr> in
            if p \<in> set (reactions s) then fadeOutProgressBar s else s))"

text \<open>
  \<^verbatim>\<open>animateIndeterminate\<close>, in four parts: the elapsed seconds \<^verbatim>\<open>delta\<close> (\<^verbatim>\<open>NaN\<close> when
  \<^verbatim>\<open>lastAnimationFrame\<close> is \<^verbatim>\<open>undefined\<close>), the percentage of the branch "animate active
  state", the percentage of the branch "done, animate to 100%", and the two statements
  that end every branch but the last (record the time, request the next frame).
\<close>

definition frame_delta :: "ProgressBar \<Rightarrow> number" where
  "frame_delta s =
     js_div (js_sub (Fin (clock s)) (case lastAnimationFrame s of None \<Rightarrow> NaN | Some t \<Rightarrow> t))
       (Fin 1000)"

definition active_percent :: "ProgressBar \<Rightarrow> number" where
  "active_percent s =
     (let factor = js_mul (frame_delta s) (js_div (Fin 900) (indeterminateSpeed s));
          percent = js_add (progressPercentage s)
            (js_mul factor
               (Math_pow2 (js_sub (Fin 1) (Math_sqrt (js_sub (Fin 100) (progressPercentage s))))))
      in Math_max (Fin 0) (Math_min (Fin 100) percent))"

definition done_percent :: "ProgressBar \<Rightarrow> number" where
  "done_percent s =
     (let speed = js_div (Fin 900) (indeterminateSpeed s);
          factor = js_add speed (Math_max (Fin 0) (js_sub (Fin 1) speed));
          percent = js_add (progressPercentage s) (js_mul (js_mul (Fin 250) (frame_delta s)) factor)
      in Math_max (Fin 0) (Math_min (Fin 100) percent))"

definition request_next :: "ProgressBar \<Rightarrow> ProgressBar" where
  "request_next s0 =
     (let s = s0\<lparr> lastAnimationFrame := Some (Fin (clock s0)) \<rparr>;
          (h, s) = requestAnimationFrame AnimateIndeterminate s
      in s\<lparr> animationRequest := Some h \<rparr>)"

definition animateIndeterminate :: "ProgressBar \<Rightarrow> ProgressBar" where
  "animateIndeterminate s0 =
     (let s = s0\<lparr> animationRequest := None \<rparr> in
      if determinate s then s
      else if \<not> (case lastAnimationFrame s of None \<Rightarrow> False | Some t \<Rightarrow> truthy t) then
        request_next (s\<lparr> progressPercentage := Fin 0 \<rparr>)
      else if isActive s then
        request_next (s\<lparr> progressPercentage := active_percent s \<rparr>)
      else if js_lt (progressPercentage s) (Fin 100) then
        request_next (s\<lparr> progressPercentage := done_percent s \<rparr>)
      else fadeOutProgressBar s)"

text \<open>The setter of the input \<^verbatim>\<open>progress\<close>, which the next-callback of \<^verbatim>\<open>start\<close> calls.
  \<^verbatim>\<open>progress == null\<close> holds of \<^verbatim>\<open>null\<close> and \<^verbatim>\<open>undefined\<close>: both are \<open>None\<close>.\<close>

definition clamp_percent :: "number \<Rightarrow> number" where
  "clamp_percent progress = Math_max (Fin 0) (Math_min (js_mul (Fin 100) progress) (Fin 100))"

definition set_progress :: "number option \<Rightarrow> ProgressBar \<Rightarrow> ProgressBar" where
  "set_progress progress s0 =
     (case progress of
        None \<Rightarrow> s0\<lparr> determinate := False \<rparr>
      | Some v \<Rightarrow>
          (let s = s0\<lparr> determinate := True \<rparr>;
               progress = clamp_percent v
           in if \<not> js_eq progress (progressPercentage s) then
                (if js_eq progress (Fin 100) then complete s
                 else s\<lparr> progressPercentage := progress \<rparr>)
              else s))"

definition isPromise :: "source option \<Rightarrow> bool" where
  "isPromise obj = (case obj of None \<Rightarrow> False | Some x \<Rightarrow> has_then x)"

definition isSubscribable :: "source option \<Rightarrow> bool" where
  "isSubscribable obj = (case obj of None \<Rightarrow> False | Some x \<Rightarrow> has_subscribe x)"

text \<open>
  What \<^verbatim>\<open>start\<close> hands to \<^verbatim>\<open>then\<close> and to \<^verbatim>\<open>subscribe\<close>, run on what the source calls back
  before the call returns. Both promise callbacks are \<^verbatim>\<open>() => observing && this.complete()\<close>,
  and \<^verbatim>\<open>observing\<close> is true until \<^verbatim>\<open>cleanupSubscription\<close> is called, which cannot happen
  inside \<^verbatim>\<open>then\<close>. A subscriber takes nothing after the first error or completion.
\<close>

definition sync_outcomes :: "source option \<Rightarrow> outcome list" where
  "sync_outcomes obj = (case obj of None \<Rightarrow> [] | Some x \<Rightarrow> calls_in_then x)"

definition sync_notifications :: "source option \<Rightarrow> notification list" where
  "sync_notifications obj = (case obj of None \<Rightarrow> [] | Some x \<Rightarrow> calls_in_subscribe x)"

fun then_callbacks :: "outcome list \<Rightarrow> ProgressBar \<Rightarrow> ProgressBar" where
  "then_callbacks [] s = s"
| "then_callbacks (r # rs) s = then_callbacks rs (complete s)"

fun subscribe_callbacks :: "notification list \<Rightarrow> ProgressBar \<Rightarrow> ProgressBar" where
  "subscribe_callbacks [] s = s"
| "subscribe_callbacks (OnNext v # ns) s =
     subscribe_callbacks ns (case v of JSNumber n \<Rightarrow> set_progress (Some n) s | JSOther x \<Rightarrow> s)"
| "subscribe_callbacks (OnError e # ns) s = complete s"
| "subscribe_callbacks (OnComplete # ns) s = complete s"

text \<open>Whether the subscription is still open when \<^verbatim>\<open>subscribe\<close> returns.\<close>

fun stays_open :: "notification list \<Rightarrow> bool" where
  "stays_open [] = True"
| "stays_open (OnNext v # ns) = stays_open ns"
| "stays_open (OnError e # ns) = False"
| "stays_open (OnComplete # ns) = False"

text \<open>
  \<^verbatim>\<open>start\<close>. Attaching to a source appends a binding. The callbacks the source runs inside
  \<^verbatim>\<open>then\<close> or \<^verbatim>\<open>subscribe\<close> run here, before \<^verbatim>\<open>cleanupSubscription\<close> is assigned; the later
  ones run when the browser delivers \<open>PromiseSettled\<close> or a stream event for the binding.
  A thenable that has called back inside \<^verbatim>\<open>then\<close> counts as settled.
\<close>

definition start :: "source option \<Rightarrow> ProgressBar \<Rightarrow> ProgressBar" where
  "start promiseOrObservable s0 =
     (let s = call_cleanupSubscription s0;
          s = (if \<not> isActive s then
                 (let s = s\<lparr> isActive := True \<rparr>;
                      s = s\<lparr> lastAnimationFrame := None \<rparr>;
                      s = s\<lparr> progressBarVisible := True \<rparr>
                  in if \<not> determinate s then animateIndeterminate (s\<lparr> progressPercentage := Fin 0 \<rparr>)
                     else s)
               else s)
      in if isPromise promiseOrObservable then
           (let k = length (bindings s);
                s = s\<lparr> bindings := bindings s @ [PromiseBinding True] \<rparr>;
                s = then_callbacks (sync_outcomes promiseOrObservable) s;
                s = (if sync_outcomes promiseOrObservable = [] then s
                     else s\<lparr> settled := k # settled s \<rparr>)
            in s\<lparr> cleanupSubscription := StopObserving k \<rparr>)
         else if isSubscribable promiseOrObservable then
           (let k = length (bindings s);
                s = s\<lparr> bindings := bindings s
                        @ [StreamBinding (stays_open (sync_notifications promiseOrObservable))] \<rparr>;
                s = subscribe_callbacks (sync_notifications promiseOrObservable) s
            in s\<lparr> cleanupSubscription := Unsubscribe k \<rparr>)
         else s)"

definition cleanup :: "ProgressBar \<Rightarrow> ProgressBar" where
  "cleanup s0 =
     (let s = (case animationRequest s0 of
                 None \<Rightarrow> s0
               | Some h \<Rightarrow> if h \<noteq> 0 then (cancelAnimationFrame h s0)\<lparr> animationRequest := None \<rparr>
                           else s0);
          s = call_removePendingHandler s
      in call_cleanupSubscription s)"

definition ngOnDestroy :: "ProgressBar \<Rightarrow> ProgressBar" where
  "ngOnDestroy s = cleanup s"

subsection \<open>The input setters\<close>

definition set_active :: "bool \<Rightarrow> ProgressBar \<Rightarrow> ProgressBar" where
  "set_active active s =
     (if active \<and> \<not> isActive s then start None s
      else if \<not> active \<and> isActive s then complete s
      else s)"

definition set_for :: "source option \<Rightarrow> ProgressBar \<Rightarrow> ProgressBar" where
  "set_for promiseOrObservable s0 =
     (let s = cleanup s0 in
      if promiseOrObservable \<noteq> None then start promiseOrObservable (s\<lparr> progressPercentage := Fin 0 \<rparr>)
      else if isActive s then complete s
      else s)"

text \<open>
  The regular expression of the \<^verbatim>\<open>speed\<close> setter, \<^verbatim>\<open>/^(\d+(?:\.\d+)?)(ms|s)?$/\<close>, as a
  matcher that returns the two groups (an absent second group is the empty string).
  Both \<^verbatim>\<open>\d+\<close> are greedy, and giving back a digit or the fraction never helps, since
  what follows would then have to start with a digit or a dot: the first match the
  backtracking finds is the only one.
\<close>

definition is_digit :: "char \<Rightarrow> bool" where
  "is_digit c = (c \<in> set ''0123456789'')"

definition speed_match :: "string \<Rightarrow> (string \<times> string) option" where
  "speed_match speed =
     (let ds = takeWhile is_digit speed;
          r = dropWhile is_digit speed
      in if ds = [] then None
         else
           (let (fr, r) =
                  (case r of
                     [] \<Rightarrow> ([], r)
                   | c # r' \<Rightarrow>
                       if c = CHR ''.'' \<and> takeWhile is_digit r' \<noteq> []
                       then (c # takeWhile is_digit r', dropWhile is_digit r')
                       else ([], r))
            in if r = [] \<or> r = ''ms'' \<or> r = ''s'' then Some (ds @ fr, r) else None))"

text \<open>
  \<^verbatim>\<open>Number.parseFloat\<close> on the first group, a string of the form \<^verbatim>\<open>\d+(\.\d+)?\<close>: its
  decimal value (the nearest double, in JavaScript).
\<close>

definition digit_value :: "char \<Rightarrow> nat" where
  "digit_value c = of_char c - 48"

definition decimal :: "string \<Rightarrow> nat" where
  "decimal ds = foldl (\<lambda>a c. 10 * a + digit_value c) 0 ds"

definition parseFloat :: "string \<Rightarrow> real" where
  "parseFloat str =
     (let ip = takeWhile is_digit str;
          fp = takeWhile is_digit (drop 1 (dropWhile is_digit str))
      in real (decimal ip) + real (decimal fp) / 10 ^ length fp)"

definition set_speed :: "speed_input \<Rightarrow> ProgressBar \<Rightarrow> ProgressBar" where
  "set_speed speed s =
     (case speed of
        SpeedString str \<Rightarrow>
          (case speed_match str of
             Some (m1, m2) \<Rightarrow>
               (let factor = (if m2 = ''s'' then 1000 else 1)
                in s\<lparr> indeterminateSpeed := Fin (parseFloat m1 * factor) \<rparr>)
           | None \<Rightarrow> s)
      | SpeedNumber n \<Rightarrow> if n \<noteq> NaN then s\<lparr> indeterminateSpeed := n \<rparr> else s)"

subsection \<open>Events\<close>

text \<open>
  What happens to a progress bar: a call of one of its setters or public methods, or the
  browser running one of the callbacks it registered. \<open>Tick\<close> moves the clock.
  A promise's callbacks run once; a subscription calls back only while it is open, and
  an error or a completion closes it.
\<close>

datatype event =
    SetActive bool
  | SetProgress "number option"
  | SetSpeed speed_input
  | SetFor "source option"
  | Start "source option"
  | Complete
  | NgOnDestroy
  | Tick real
  | AnimationFrame nat
  | TransitionEnd element
  | PromiseSettled nat outcome
  | StreamNext nat js_value
  | StreamError nat js_value
  | StreamComplete nat

text \<open>The two \<^verbatim>\<open>transitionend\<close> callbacks.\<close>

fun call_listener :: "listener \<Rightarrow> ProgressBar \<Rightarrow> ProgressBar" where
  "call_listener (FadeOutCallback k) s =
     (let s = call_removePendingHandler s in s\<lparr> progressPercentage := Fin 0 \<rparr>)"
| "call_listener (TransitionCallback k) s =
     (let s = call_removePendingHandler s in resolve k s)"

text \<open>
  The browser calls the listeners registered when the event fires, in order, skipping
  one that an earlier listener has removed.
\<close>

fun dispatch :: "element \<Rightarrow> listener list \<Rightarrow> ProgressBar \<Rightarrow> ProgressBar" where
  "dispatch el [] s = s"
| "dispatch el (cb # cbs) s =
     dispatch el cbs (if (el, cb) \<in> set (listeners s) then call_listener cb s else s)"

fun call_frame :: "frame_callback \<Rightarrow> ProgressBar \<Rightarrow> ProgressBar" where
  "call_frame AnimateIndeterminate s = animateIndeterminate s"
| "call_frame (WaitUntilDone k) s =
     (if js_eq (progressPercentage s) (Fin 100) then resolve k s
      else snd (requestAnimationFrame (WaitUntilDone k) s))"

definition promise_settled :: "nat \<Rightarrow> ProgressBar \<Rightarrow> ProgressBar" where
  "promise_settled k s =
     (if k < length (bindings s) \<and> k \<notin> set (settled s) then
        (case bindings s ! k of
           PromiseBinding observing \<Rightarrow>
             (let s = s\<lparr> settled := k # settled s \<rparr> in if observing then complete s else s)
         | StreamBinding opened \<Rightarrow> s)
      else s)"

definition stream_next :: "nat \<Rightarrow> js_value \<Rightarrow> ProgressBar \<Rightarrow> ProgressBar" where
  "stream_next k v s =
     (if k < length (bindings s) \<and> bindings s ! k = StreamBinding True then
        (case v of JSNumber n \<Rightarrow> set_progress (Some n) s | JSOther x \<Rightarrow> s)
      else s)"

definition stream_closed :: "nat \<Rightarrow> ProgressBar \<Rightarrow> ProgressBar" where
  "stream_closed k s =
     (if k < length (bindings s) \<and> bindings s ! k = StreamBinding True then
        complete (s\<lparr> bindings := (bindings s)[k := StreamBinding False] \<rparr>)
      else s)"

fun step :: "event \<Rightarrow> ProgressBar \<Rightarrow> ProgressBar" where
  "step (SetActive b) s = set_active b s"
| "step (SetProgress p) s = set_progress p s"
| "step (SetSpeed v) s = set_speed v s"
| "step (SetFor src) s = set_for src s"
| "step (Start src) s = start src s"
| "step Complete s = complete s"
| "step NgOnDestroy s = ngOnDestroy s"
| "step (Tick t) s = s\<lparr> clock := t \<rparr>"
| "step (AnimationFrame h) s =
     (case find (\<lambda>(i, cb). i = h) (frames s) of
        None \<Rightarrow> s
      | Some (i, cb) \<Rightarrow> call_frame cb (s\<lparr> frames := filter (\<lambda>(i, cb). i \<noteq> h) (frames s) \<rparr>))"
| "step (TransitionEnd el) s =
     dispatch el (map snd (filter (\<lambda>(e, cb). e = el) (listeners s))) s"
| "step (PromiseSettled k r) s = promise_settled k s"
| "step (StreamNext k v) s = stream_next k v s"
| "step (StreamError k e) s = stream_closed k s"
| "step (StreamComplete k) s = stream_closed k s"

fun run :: "event list \<Rightarrow> ProgressBar \<Rightarrow> ProgressBar" where
  "run [] s = s"
| "run (e # es) s = run es (step e s)"

subsection \<open>Invariants of the reachable states\<close>

text \<open>
  The single slot \<^verbatim>\<open>removePendingHandler\<close> accounts for every registered listener: the
  listeners are exactly the one the stored closure would remove. The closure of the
  non-determinate branch of \<^verbatim>\<open>transitionTo100Percent\<close> is never stored and no
  \<^verbatim>\<open>waitUntilDone\<close> frame is ever requested, since \<^verbatim>\<open>complete\<close> calls that method in
  determinate mode only. Closure numbers in use are below \<open>nextClosure\<close>, and the promise
  of a pending transition is not yet resolved.
\<close>

fun handler_listeners :: "pending_handler \<Rightarrow> (element \<times> listener) list" where
  "handler_listeners NoopHandler = []"
| "handler_listeners (RemoveWrapperListener k) = [(Wrapper, FadeOutCallback k)]"
| "handler_listeners (RemoveIndicatorListener k) = [(Indicator, TransitionCallback k)]"
| "handler_listeners (CancelFrameRequest k) = []"

fun handler_ok :: "nat \<Rightarrow> nat list \<Rightarrow> pending_handler \<Rightarrow> bool" where
  "handler_ok n rs NoopHandler = True"
| "handler_ok n rs (RemoveWrapperListener k) = (k < n)"
| "handler_ok n rs (RemoveIndicatorListener k) = (k < n \<and> k \<notin> set rs)"
| "handler_ok n rs (CancelFrameRequest k) = False"

definition inv_dom :: "ProgressBar \<Rightarrow> bool" where
  "inv_dom s = (listeners s = handler_listeners (removePendingHandler s)
     \<and> handler_ok (nextClosure s) (resolved s) (removePendingHandler s)
     \<and> list_all (\<lambda>(h, cb). cb = AnimateIndeterminate) (frames s)
     \<and> list_all (\<lambda>p. p < nextClosure s) (resolved s))"

text \<open>
  At most one binding is live, and it is the one the closure in \<^verbatim>\<open>cleanupSubscription\<close>
  would tear down. A binding is stale when it exists and is not live: its promise
  callbacks no longer observe, or its subscription is closed.
\<close>

fun closure_of :: "nat \<Rightarrow> binding \<Rightarrow> cleanup_closure" where
  "closure_of k (PromiseBinding b) = StopObserving k"
| "closure_of k (StreamBinding b) = Unsubscribe k"

definition inv_bind :: "ProgressBar \<Rightarrow> bool" where
  "inv_bind s = (\<forall>k \<in> {..< length (bindings s)}.
     live (bindings s ! k) \<longrightarrow> cleanupSubscription s = closure_of k (bindings s ! k))"

definition stale :: "nat \<Rightarrow> ProgressBar \<Rightarrow> bool" where
  "stale k s = (k < length (bindings s) \<and> \<not> live (bindings s ! k))"

text \<open>The events that replace the binding or tear it down: \<^verbatim>\<open>for\<close>, \<^verbatim>\<open>start\<close> and
  \<^verbatim>\<open>ngOnDestroy\<close>.\<close>

fun rebinds :: "event \<Rightarrow> bool" where
  "rebinds (SetFor src) = True"
| "rebinds (Start src) = True"
| "rebinds NgOnDestroy = True"
| "rebinds e = False"

subsection \<open>The specification's growth law\<close>

text \<open>
  The update of the percentage in an active indeterminate frame as the specification
  words it: \<^verbatim>\<open>percentage += delta * speedFactor * (1 - sqrt(1 - percentage/100))^2\<close>,
  clamped to \<open>[0, 100]\<close>. It is compared with \<open>active_percent\<close>, which is the code.
\<close>

definition spec_indeterminate_law :: "real \<Rightarrow> real \<Rightarrow> real \<Rightarrow> real" where
  "spec_indeterminate_law delta speedFactor percentage =
     max 0 (min 100 (percentage + delta * speedFactor * (1 - sqrt (1 - percentage / 100))\<^sup>2))"

subsection \<open>The syntax of a speed string\<close>

text \<open>
  The language of \<^verbatim>\<open>/^(\d+(?:\.\d+)?)(ms|s)?$/\<close>, stated without reference to the matcher:
  a number literal is a non-empty string of digits \<open>ds\<close> followed by \<open>fr\<close>, which is empty or
  a dot and a non-empty string of digits; a unit suffix is empty, \<^verbatim>\<open>ms\<close> or \<^verbatim>\<open>s\<close>.
\<close>

definition number_literal :: "string \<Rightarrow> string \<Rightarrow> bool" where
  "number_literal ds fr =
     (ds \<noteq> [] \<and> list_all is_digit ds \<and>
      (case fr of [] \<Rightarrow> True | c # fs \<Rightarrow> c = CHR ''.'' \<and> fs \<noteq> [] \<and> list_all is_digit fs))"

definition unit_suffix :: "string \<Rightarrow> bool" where
  "unit_suffix suf = (suf = [] \<or> suf = ''ms'' \<or> suf = ''s'')"

subsection \<open>Sources that call back at once, and events that start a cycle\<close>



definition dismissed :: "ProgressBar \<Rightarrow> bool" where
  "dismissed s = (\<not> isActive s \<and> \<not> progressBarVisible s)"

section \<open>Lemmas\<close>

lemma inv_bind_iff:
  "inv_bind s = (\<forall>k < length (bindings s).
     live (bindings s ! k) \<longrightarrow> cleanupSubscription s = closure_of k (bindings s ! k))"
  by (auto simp: inv_bind_def)

lemma inv_dom_initial: "inv_dom initial"
  by (simp add: inv_dom_def initial_def)

lemma inv_dom_fields:
  "listeners s' = listeners s \<Longrightarrow> removePendingHandler s' = removePendingHandler s \<Longrightarrow>
   nextClosure s' = nextClosure s \<Longrightarrow> frames s' = frames s \<Longrightarrow> resolved s' = resolved s \<Longrightarrow>
   inv_dom s' = inv_dom s"
  by (simp add: inv_dom_def)

lemma inv_dom_updates [simp]:
  "inv_dom (s\<lparr> isActive := b \<rparr>) = inv_dom s"
  "inv_dom (s\<lparr> progressPercentage := v \<rparr>) = inv_dom s"
  "inv_dom (s\<lparr> progressBarVisible := b \<rparr>) = inv_dom s"
  "inv_dom (s\<lparr> indeterminateSpeed := v \<rparr>) = inv_dom s"
  "inv_dom (s\<lparr> determinate := b \<rparr>) = inv_dom s"
  "inv_dom (s\<lparr> animationRequest := r \<rparr>) = inv_dom s"
  "inv_dom (s\<lparr> lastAnimationFrame := l \<rparr>) = inv_dom s"
  "inv_dom (s\<lparr> cleanupSubscription := c \<rparr>) = inv_dom s"
  "inv_dom (s\<lparr> clock := t \<rparr>) = inv_dom s"
  "inv_dom (s\<lparr> nextFrame := n \<rparr>) = inv_dom s"
  "inv_dom (s\<lparr> reactions := rs \<rparr>) = inv_dom s"
  "inv_dom (s\<lparr> bindings := bs \<rparr>) = inv_dom s"
  "inv_dom (s\<lparr> settled := ss \<rparr>) = inv_dom s"
  by (simp_all add: inv_dom_def)

lemma call_removePendingHandler_fields [simp]:
  "isActive (call_removePendingHandler s) = isActive s"
  "progressPercentage (call_removePendingHandler s) = progressPercentage s"
  "progressBarVisible (call_removePendingHandler s) = progressBarVisible s"
  "indeterminateSpeed (call_removePendingHandler s) = indeterminateSpeed s"
  "determinate (call_removePendingHandler s) = determinate s"
  "animationRequest (call_removePendingHandler s) = animationRequest s"
  "lastAnimationFrame (call_removePendingHandler s) = lastAnimationFrame s"
  "cleanupSubscription (call_removePendingHandler s) = cleanupSubscription s"
  "clock (call_removePendingHandler s) = clock s"
  "nextFrame (call_removePendingHandler s) = nextFrame s"
  "nextClosure (call_removePendingHandler s) = nextClosure s"
  "reactions (call_removePendingHandler s) = reactions s"
  "resolved (call_removePendingHandler s) = resolved s"
  "bindings (call_removePendingHandler s) = bindings s"
  "settled (call_removePendingHandler s) = settled s"
  "removePendingHandler (call_removePendingHandler s) = NoopHandler"
  by (simp_all add: call_removePendingHandler_def removeEventListener_def split: pending_handler.split)

lemma call_cleanupSubscription_fields [simp]:
  "isActive (call_cleanupSubscription s) = isActive s"
  "progressPercentage (call_cleanupSubscription s) = progressPercentage s"
  "progressBarVisible (call_cleanupSubscription s) = progressBarVisible s"
  "indeterminateSpeed (call_cleanupSubscription s) = indeterminateSpeed s"
  "determinate (call_cleanupSubscription s) = determinate s"
  "animationRequest (call_cleanupSubscription s) = animationRequest s"
  "lastAnimationFrame (call_cleanupSubscription s) = lastAnimationFrame s"
  "removePendingHandler (call_cleanupSubscription s) = removePendingHandler s"
  "clock (call_cleanupSubscription s) = clock s"
  "frames (call_cleanupSubscription s) = frames s"
  "nextFrame (call_cleanupSubscription s) = nextFrame s"
  "listeners (call_cleanupSubscription s) = listeners s"
  "nextClosure (call_cleanupSubscription s) = nextClosure s"
  "reactions (call_cleanupSubscription s) = reactions s"
  "resolved (call_cleanupSubscription s) = resolved s"
  "settled (call_cleanupSubscription s) = settled s"
  "cleanupSubscription (call_cleanupSubscription s) = NoopCleanup"
  "length (bindings (call_cleanupSubscription s)) = length (bindings s)"
  by (simp_all add: call_cleanupSubscription_def split: cleanup_closure.split)

lemma fadeOutProgressBar_fields [simp]:
  "isActive (fadeOutProgressBar s) = isActive s"
  "progressPercentage (fadeOutProgressBar s) = progressPercentage s"
  "progressBarVisible (fadeOutProgressBar s) = False"
  "indeterminateSpeed (fadeOutProgressBar s) = indeterminateSpeed s"
  "determinate (fadeOutProgressBar s) = determinate s"
  "animationRequest (fadeOutProgressBar s) = animationRequest s"
  "lastAnimationFrame (fadeOutProgressBar s) = lastAnimationFrame s"
  "cleanupSubscription (fadeOutProgressBar s) = cleanupSubscription s"
  "clock (fadeOutProgressBar s) = clock s"
  "nextFrame (fadeOutProgressBar s) = nextFrame s"
  "nextClosure (fadeOutProgressBar s) = Suc (nextClosure s)"
  "reactions (fadeOutProgressBar s) = reactions s"
  "resolved (fadeOutProgressBar s) = resolved s"
  "bindings (fadeOutProgressBar s) = bindings s"
  "settled (fadeOutProgressBar s) = settled s"
  "removePendingHandler (fadeOutProgressBar s) = RemoveWrapperListener (nextClosure s)"
  by (simp_all add: fadeOutProgressBar_def addEventListener_def Let_def)

lemma inv_dom_call_removePendingHandler:
  "inv_dom s \<Longrightarrow> inv_dom (call_removePendingHandler s)"
  by (cases "removePendingHandler s")
     (auto simp: inv_dom_def call_removePendingHandler_def removeEventListener_def)

lemma listeners_call_removePendingHandler:
  "inv_dom s \<Longrightarrow> listeners (call_removePendingHandler s) = []"
  by (cases "removePendingHandler s")
     (auto simp: inv_dom_def call_removePendingHandler_def removeEventListener_def)

lemma frames_call_removePendingHandler:
  "inv_dom s \<Longrightarrow> frames (call_removePendingHandler s) = frames s"
  by (cases "removePendingHandler s")
     (auto simp: inv_dom_def call_removePendingHandler_def removeEventListener_def)

lemma list_all_less_Suc: "list_all (\<lambda>p. p < n) xs \<Longrightarrow> list_all (\<lambda>p. p < Suc n) xs"
  by (induction xs) auto

lemma listeners_fadeOutProgressBar:
  "inv_dom s \<Longrightarrow> listeners (fadeOutProgressBar s) = [(Wrapper, FadeOutCallback (nextClosure s))]"
  by (simp add: fadeOutProgressBar_def Let_def addEventListener_def listeners_call_removePendingHandler)

lemma frames_fadeOutProgressBar:
  "inv_dom s \<Longrightarrow> frames (fadeOutProgressBar s) = frames s"
  by (simp add: fadeOutProgressBar_def Let_def addEventListener_def frames_call_removePendingHandler)

lemma inv_dom_fadeOutProgressBar: "inv_dom s \<Longrightarrow> inv_dom (fadeOutProgressBar s)"
  using listeners_fadeOutProgressBar[of s] frames_fadeOutProgressBar[of s]
  by (simp add: inv_dom_def list_all_less_Suc)

lemma transitionTo100Percent_determinate:
  "determinate s \<Longrightarrow> transitionTo100Percent s =
     (nextClosure s,
      (addEventListener Indicator (TransitionCallback (nextClosure s))
         ((call_removePendingHandler s)\<lparr> nextClosure := Suc (nextClosure s),
              removePendingHandler := RemoveIndicatorListener (nextClosure s) \<rparr>))
        \<lparr> progressPercentage := Fin 100 \<rparr>)"
  by (simp add: transitionTo100Percent_def Let_def)

lemma complete_unfold:
  "complete s =
     (if \<not> isActive s then s
      else if \<not> determinate s then s\<lparr> isActive := False \<rparr>
      else if js_eq (progressPercentage s) (Fin 100) then fadeOutProgressBar (s\<lparr> isActive := False \<rparr>)
      else (let s1 = call_removePendingHandler (s\<lparr> isActive := False \<rparr>); k = nextClosure s in
            (addEventListener Indicator (TransitionCallback k)
               (s1\<lparr> nextClosure := Suc k, removePendingHandler := RemoveIndicatorListener k \<rparr>))
            \<lparr> progressPercentage := Fin 100, reactions := k # reactions s \<rparr>))"
  by (simp add: complete_def Let_def transitionTo100Percent_determinate addEventListener_def)

lemma inv_dom_complete: "inv_dom s \<Longrightarrow> inv_dom (complete s)"
  using listeners_call_removePendingHandler[of "s\<lparr> isActive := False \<rparr>"]
        frames_call_removePendingHandler[of "s\<lparr> isActive := False \<rparr>"]
  by (auto simp: complete_unfold Let_def inv_dom_fadeOutProgressBar)
     (auto simp: inv_dom_def addEventListener_def list_all_less_Suc list_all_iff)

lemma inv_dom_call_cleanupSubscription [simp]:
  "inv_dom (call_cleanupSubscription s) = inv_dom s"
  by (simp add: inv_dom_def)

lemma list_all_frames_filter:
  "list_all P (frames s) \<Longrightarrow> list_all P (filter Q (frames s))"
  by (induction "frames s" arbitrary: s) (auto simp: list_all_iff)

lemma inv_dom_request_next: "inv_dom s \<Longrightarrow> inv_dom (request_next s)"
  by (simp add: request_next_def requestAnimationFrame_def Let_def inv_dom_def)

lemma inv_dom_animateIndeterminate: "inv_dom s \<Longrightarrow> inv_dom (animateIndeterminate s)"
  by (simp add: animateIndeterminate_def Let_def inv_dom_request_next inv_dom_fadeOutProgressBar)

lemma inv_dom_cleanup: "inv_dom s \<Longrightarrow> inv_dom (cleanup s)"
proof -
  assume i: "inv_dom s"
  have "\<And>h. inv_dom ((cancelAnimationFrame h s)\<lparr> animationRequest := None \<rparr>)"
    using i by (simp add: inv_dom_def cancelAnimationFrame_def list_all_frames_filter)
  then show ?thesis
    using i by (simp add: cleanup_def Let_def inv_dom_call_removePendingHandler split: option.split)
qed

lemma inv_dom_set_progress: "inv_dom s \<Longrightarrow> inv_dom (set_progress p s)"
proof -
  assume i: "inv_dom s"
  have d: "\<And>b. inv_dom (s\<lparr> determinate := b \<rparr>)" using i by (simp add: inv_dom_def)
  have e: "\<And>b v. inv_dom (s\<lparr> determinate := b, progressPercentage := v \<rparr>)" using i by (simp add: inv_dom_def)
  show ?thesis
    using d e inv_dom_complete[OF d]
    by (simp add: set_progress_def Let_def split: option.split)
qed

lemma inv_dom_then_callbacks: "inv_dom s \<Longrightarrow> inv_dom (then_callbacks rs s)"
  by (induction rs arbitrary: s) (simp_all add: inv_dom_complete)

lemma inv_dom_subscribe_callbacks: "inv_dom s \<Longrightarrow> inv_dom (subscribe_callbacks ns s)"
proof (induction ns arbitrary: s)
  case Nil
  then show ?case by simp
next
  case (Cons n ns)
  then show ?case
    by (cases n) (simp_all add: inv_dom_complete inv_dom_set_progress split: js_value.split)
qed

lemma inv_dom_start: "inv_dom s \<Longrightarrow> inv_dom (start src s)"
proof -
  assume i: "inv_dom s"
  let ?s1 = "call_cleanupSubscription s"
  let ?s2 = "?s1\<lparr> isActive := True, lastAnimationFrame := None, progressBarVisible := True \<rparr>"
  let ?s3 = "if \<not> isActive ?s1
             then (if \<not> determinate ?s1 then animateIndeterminate (?s2\<lparr> progressPercentage := Fin 0 \<rparr>)
                   else ?s2)
             else ?s1"
  have 1: "inv_dom ?s1" using i by simp
  have 2: "inv_dom ?s2" using 1 by simp
  have "inv_dom (?s2\<lparr> progressPercentage := Fin 0 \<rparr>)" using 1 by simp
  then have 3: "inv_dom ?s3"
    using 1 2 by (simp add: inv_dom_animateIndeterminate)
  have e: "start src s =
      (if isPromise src then
         (let t = then_callbacks (sync_outcomes src)
                    (?s3\<lparr> bindings := bindings ?s3 @ [PromiseBinding True] \<rparr>);
              t = (if sync_outcomes src = [] then t
                   else t\<lparr> settled := length (bindings ?s3) # settled t \<rparr>)
          in t\<lparr> cleanupSubscription := StopObserving (length (bindings ?s3)) \<rparr>)
       else if isSubscribable src then
         (subscribe_callbacks (sync_notifications src)
            (?s3\<lparr> bindings := bindings ?s3 @ [StreamBinding (stays_open (sync_notifications src))] \<rparr>))
           \<lparr> cleanupSubscription := Unsubscribe (length (bindings ?s3)) \<rparr>
       else ?s3)"
    by (simp add: start_def Let_def)
  have p: "inv_dom (then_callbacks rs (?s3\<lparr> bindings := bs \<rparr>))" for rs bs
    using 3 by (intro inv_dom_then_callbacks) simp
  have q: "inv_dom (subscribe_callbacks ns (?s3\<lparr> bindings := bs \<rparr>))" for ns bs
    using 3 by (intro inv_dom_subscribe_callbacks) simp
  show ?thesis
    unfolding e using 3 p q by (simp add: Let_def)
qed

lemma inv_dom_set_speed: "inv_dom s \<Longrightarrow> inv_dom (set_speed v s)"
  by (simp add: set_speed_def inv_dom_def Let_def split: speed_input.split option.split prod.split)

lemma inv_dom_set_active: "inv_dom s \<Longrightarrow> inv_dom (set_active b s)"
  by (simp add: set_active_def inv_dom_start inv_dom_complete)

lemma inv_dom_set_for: "inv_dom s \<Longrightarrow> inv_dom (set_for src s)"
proof -
  assume i: "inv_dom s"
  have c: "inv_dom (cleanup s)" by (rule inv_dom_cleanup[OF i])
  have "inv_dom ((cleanup s)\<lparr> progressPercentage := Fin 0 \<rparr>)"
    using c by (simp add: inv_dom_def)
  then show ?thesis
    using c by (simp add: set_for_def Let_def inv_dom_start inv_dom_complete)
qed

lemma inv_dom_resolve:
  "inv_dom s \<Longrightarrow> p < nextClosure s \<Longrightarrow> removePendingHandler s = NoopHandler \<Longrightarrow>
   inv_dom (resolve p s)"
proof -
  assume i: "inv_dom s" and p: "p < nextClosure s" and n: "removePendingHandler s = NoopHandler"
  have r: "inv_dom (s\<lparr> resolved := p # resolved s \<rparr>)"
    using i p n by (simp add: inv_dom_def)
  show ?thesis
    using i r inv_dom_fadeOutProgressBar[OF r] by (simp add: resolve_def Let_def)
qed

lemma inv_dom_call_listener:
  "inv_dom s \<Longrightarrow> (el, cb) \<in> set (listeners s) \<Longrightarrow> inv_dom (call_listener cb s)"
proof (cases cb)
  case (FadeOutCallback k)
  assume i: "inv_dom s"
  have "inv_dom ((call_removePendingHandler s)\<lparr> progressPercentage := Fin 0 \<rparr>)"
    using inv_dom_call_removePendingHandler[OF i] by (simp add: inv_dom_def)
  then show ?thesis using FadeOutCallback by (simp add: Let_def)
next
  case (TransitionCallback k)
  assume i: "inv_dom s" and m: "(el, cb) \<in> set (listeners s)"
  have "k < nextClosure s"
    using i m TransitionCallback by (cases "removePendingHandler s") (auto simp: inv_dom_def)
  then show ?thesis
    using TransitionCallback inv_dom_resolve[OF inv_dom_call_removePendingHandler[OF i], of k]
    by (simp add: Let_def)
qed

lemma inv_dom_dispatch: "inv_dom s \<Longrightarrow> inv_dom (dispatch el cbs s)"
  by (induction cbs arbitrary: s) (auto simp: inv_dom_call_listener)

lemma find_frames_Some:
  "find P xs = Some x \<Longrightarrow> x \<in> set xs"
  by (induction xs) (auto split: if_splits)

lemma inv_dom_step: "inv_dom s \<Longrightarrow> inv_dom (step e s)"
proof (cases e)
  case (AnimationFrame h)
  assume i: "inv_dom s"
  let ?t = "s\<lparr> frames := filter (\<lambda>(i, cb). i \<noteq> h) (frames s) \<rparr>"
  have t: "inv_dom ?t" using i by (simp add: inv_dom_def list_all_frames_filter)
  show ?thesis
  proof (cases "find (\<lambda>(i, cb). i = h) (frames s)")
    case None
    then show ?thesis using i AnimationFrame by simp
  next
    case (Some x)
    obtain j cb where x: "x = (j, cb)" by (cases x)
    have "x \<in> set (frames s)" using Some by (rule find_frames_Some)
    then have "cb = AnimateIndeterminate" using i x by (auto simp: inv_dom_def list_all_iff)
    then show ?thesis
      using AnimationFrame Some x inv_dom_animateIndeterminate[OF t] by simp
  qed
next
  case (Tick t)
  assume "inv_dom s"
  then show ?thesis using Tick by (simp add: inv_dom_def)
next
  case (PromiseSettled k r)
  assume i: "inv_dom s"
  have "inv_dom (s\<lparr> settled := k # settled s \<rparr>)" using i by (simp add: inv_dom_def)
  then show ?thesis
    using i PromiseSettled inv_dom_complete[of "s\<lparr> settled := k # settled s \<rparr>"]
    by (simp add: promise_settled_def Let_def split: binding.split)
next
  case (StreamNext k v)
  assume "inv_dom s"
  then show ?thesis using StreamNext
    by (simp add: stream_next_def inv_dom_set_progress split: js_value.split)
next
  case (StreamError k x)
  assume i: "inv_dom s"
  have "inv_dom (s\<lparr> bindings := (bindings s)[k := StreamBinding False] \<rparr>)"
    using i by (simp add: inv_dom_def)
  then show ?thesis using i StreamError by (simp add: stream_closed_def inv_dom_complete)
next
  case (StreamComplete k)
  assume i: "inv_dom s"
  have "inv_dom (s\<lparr> bindings := (bindings s)[k := StreamBinding False] \<rparr>)"
    using i by (simp add: inv_dom_def)
  then show ?thesis using i StreamComplete by (simp add: stream_closed_def inv_dom_complete)
qed (simp_all add: inv_dom_set_active inv_dom_set_progress inv_dom_set_speed inv_dom_set_for
      inv_dom_start inv_dom_complete inv_dom_cleanup inv_dom_dispatch ngOnDestroy_def)

lemma inv_dom_run: "inv_dom s \<Longrightarrow> inv_dom (run es s)"
  by (induction es arbitrary: s) (simp_all add: inv_dom_step)

lemma inv_bind_initial: "inv_bind initial"
  by (simp add: inv_bind_iff initial_def)

lemma inv_bind_fields:
  "bindings s' = bindings s \<Longrightarrow> cleanupSubscription s' = cleanupSubscription s \<Longrightarrow>
   inv_bind s' = inv_bind s"
  by (simp add: inv_bind_iff)

lemma stale_fields: "bindings s' = bindings s \<Longrightarrow> stale k s' = stale k s"
  by (simp add: stale_def)

lemma request_next_bind [simp]:
  "bindings (request_next s) = bindings s"
  "cleanupSubscription (request_next s) = cleanupSubscription s"
  by (simp_all add: request_next_def requestAnimationFrame_def Let_def)

lemma animateIndeterminate_bind [simp]:
  "bindings (animateIndeterminate s) = bindings s"
  "cleanupSubscription (animateIndeterminate s) = cleanupSubscription s"
  by (simp_all add: animateIndeterminate_def Let_def)

lemma complete_bind [simp]:
  "bindings (complete s) = bindings s"
  "cleanupSubscription (complete s) = cleanupSubscription s"
  by (simp_all add: complete_unfold Let_def addEventListener_def)

lemma resolve_bind [simp]:
  "bindings (resolve p s) = bindings s"
  "cleanupSubscription (resolve p s) = cleanupSubscription s"
  by (simp_all add: resolve_def Let_def)

lemma set_progress_bind [simp]:
  "bindings (set_progress p s) = bindings s"
  "cleanupSubscription (set_progress p s) = cleanupSubscription s"
  by (simp_all add: set_progress_def Let_def split: option.split)

lemma set_speed_bind [simp]:
  "bindings (set_speed v s) = bindings s"
  "cleanupSubscription (set_speed v s) = cleanupSubscription s"
  by (simp_all add: set_speed_def Let_def split: speed_input.split option.split prod.split)

lemma call_listener_bind [simp]:
  "bindings (call_listener cb s) = bindings s"
  "cleanupSubscription (call_listener cb s) = cleanupSubscription s"
  by (cases cb; simp add: Let_def)+

lemma dispatch_bind [simp]:
  "bindings (dispatch el cbs s) = bindings s"
  "cleanupSubscription (dispatch el cbs s) = cleanupSubscription s"
  by (induction cbs arbitrary: s; simp)+

lemma call_frame_bind [simp]:
  "bindings (call_frame cb s) = bindings s"
  "cleanupSubscription (call_frame cb s) = cleanupSubscription s"
  by (cases cb; simp add: requestAnimationFrame_def)+

lemma nth_update_any:
  "k < length xs \<Longrightarrow> xs[i := x] ! k = (if i = k then x else xs ! k)"
  by (cases "i < length xs") (simp_all add: nth_list_update)

text \<open>Calling the cleanup closure leaves no binding live.\<close>

lemma all_stale_call_cleanupSubscription:
  "inv_bind s \<Longrightarrow> k < length (bindings s) \<Longrightarrow> \<not> live (bindings (call_cleanupSubscription s) ! k)"
  by (cases "cleanupSubscription s"; cases "bindings s ! k")
     (auto simp: inv_bind_iff call_cleanupSubscription_def nth_update_any split: if_splits)

lemma inv_bind_call_cleanupSubscription:
  "inv_bind s \<Longrightarrow> inv_bind (call_cleanupSubscription s)"
  using all_stale_call_cleanupSubscription[of s]
  by (simp add: inv_bind_iff)

lemma stale_call_cleanupSubscription:
  "stale k s \<Longrightarrow> stale k (call_cleanupSubscription s)"
  by (cases "cleanupSubscription s")
     (auto simp: stale_def call_cleanupSubscription_def nth_update_any split: if_splits)

lemma then_callbacks_bind [simp]:
  "bindings (then_callbacks rs s) = bindings s"
  "cleanupSubscription (then_callbacks rs s) = cleanupSubscription s"
  by (induction rs arbitrary: s; simp)+

lemma subscribe_callbacks_bindings [simp]:
  "bindings (subscribe_callbacks ns s) = bindings s"
proof (induction ns arbitrary: s)
  case Nil
  show ?case by simp
next
  case (Cons n ns)
  then show ?case by (cases n) (simp_all split: js_value.split)
qed

lemma subscribe_callbacks_cleanupSubscription [simp]:
  "cleanupSubscription (subscribe_callbacks ns s) = cleanupSubscription s"
proof (induction ns arbitrary: s)
  case Nil
  show ?case by simp
next
  case (Cons n ns)
  then show ?case by (cases n) (simp_all split: js_value.split)
qed

lemma start_bindings:
  "bindings (start src s) =
     bindings (call_cleanupSubscription s) @
       (if isPromise src then [PromiseBinding True]
        else if isSubscribable src then [StreamBinding (stays_open (sync_notifications src))]
        else [])"
  "cleanupSubscription (start src s) =
     (if isPromise src then StopObserving (length (bindings s))
      else if isSubscribable src then Unsubscribe (length (bindings s)) else NoopCleanup)"
  by (simp_all add: start_def Let_def)

lemma inv_bind_start: "inv_bind s \<Longrightarrow> inv_bind (start src s)"
  using all_stale_call_cleanupSubscription[of s]
  by (auto simp: inv_bind_iff start_bindings nth_append)

lemma all_stale_start:
  "inv_bind s \<Longrightarrow> k < length (bindings s) \<Longrightarrow> stale k (start src s)"
  using all_stale_call_cleanupSubscription[of s k]
  by (auto simp: stale_def start_bindings nth_append)

lemma stale_start: "stale k s \<Longrightarrow> stale k (start src s)"
  using stale_call_cleanupSubscription[of k s]
  by (auto simp: stale_def start_bindings nth_append)

lemma cleanup_bindings:
  "bindings (cleanup s) = bindings (call_cleanupSubscription s)"
  "cleanupSubscription (cleanup s) = NoopCleanup"
  by (simp_all add: cleanup_def Let_def call_cleanupSubscription_def cancelAnimationFrame_def
      split: option.split cleanup_closure.split)

lemma inv_bind_cleanup: "inv_bind s \<Longrightarrow> inv_bind (cleanup s)"
  using all_stale_call_cleanupSubscription[of s]
  by (simp add: inv_bind_iff cleanup_bindings)

lemma all_stale_cleanup:
  "inv_bind s \<Longrightarrow> k < length (bindings s) \<Longrightarrow> stale k (cleanup s)"
  using all_stale_call_cleanupSubscription[of s k]
  by (simp add: stale_def cleanup_bindings)

lemma stale_cleanup: "stale k s \<Longrightarrow> stale k (cleanup s)"
  using stale_call_cleanupSubscription[of k s]
  by (simp add: stale_def cleanup_bindings)

lemma inv_bind_percentage_update [simp]:
  "inv_bind (s\<lparr> progressPercentage := v \<rparr>) = inv_bind s"
  "inv_bind (s\<lparr> settled := ss \<rparr>) = inv_bind s"
  "inv_bind (s\<lparr> clock := t \<rparr>) = inv_bind s"
  "inv_bind (s\<lparr> frames := fs \<rparr>) = inv_bind s"
  by (simp_all add: inv_bind_iff)

lemma stale_updates [simp]:
  "stale k (s\<lparr> progressPercentage := v \<rparr>) = stale k s"
  "stale k (s\<lparr> settled := ss \<rparr>) = stale k s"
  "stale k (s\<lparr> clock := t \<rparr>) = stale k s"
  "stale k (s\<lparr> frames := fs \<rparr>) = stale k s"
  by (simp_all add: stale_def)

lemma inv_bind_set_for: "inv_bind s \<Longrightarrow> inv_bind (set_for src s)"
  by (simp add: set_for_def Let_def inv_bind_start inv_bind_cleanup
      inv_bind_fields[of "complete t" t for t])

lemma inv_bind_stream_closed: "inv_bind s \<Longrightarrow> inv_bind (stream_closed k s)"
  by (auto simp: stream_closed_def inv_bind_iff nth_update_any split: if_splits)

lemma stale_stream_closed: "stale k s \<Longrightarrow> stale k (stream_closed j s)"
  by (auto simp: stream_closed_def stale_def nth_update_any split: if_splits)

lemma inv_bind_step: "inv_bind s \<Longrightarrow> inv_bind (step e s)"
proof (cases e)
  case (AnimationFrame h)
  assume "inv_bind s"
  then show ?thesis using AnimationFrame
    by (simp add: inv_bind_fields[of "call_frame cb t" t for cb t] split: option.split prod.split)
next
  case (PromiseSettled k r)
  assume "inv_bind s"
  then show ?thesis using PromiseSettled
    by (simp add: promise_settled_def Let_def inv_bind_fields[of "complete t" t for t]
        split: binding.split)
qed (simp_all add: set_active_def inv_bind_start inv_bind_set_for inv_bind_cleanup ngOnDestroy_def
      inv_bind_stream_closed stream_next_def
      inv_bind_fields[of "complete t" t for t] inv_bind_fields[of "set_progress p t" t for p t]
      inv_bind_fields[of "set_speed p t" t for p t] inv_bind_fields[of "dispatch el cbs t" t for el cbs t]
      split: js_value.split)

lemma stale_step: "stale k s \<Longrightarrow> stale k (step e s)"
proof (cases e)
  case (AnimationFrame h)
  assume "stale k s"
  then show ?thesis using AnimationFrame
    by (simp add: stale_fields[of "call_frame cb t" t for cb t] split: option.split prod.split)
next
  case (PromiseSettled j r)
  assume "stale k s"
  then show ?thesis using PromiseSettled
    by (simp add: promise_settled_def Let_def stale_fields[of "complete t" t for t]
        split: binding.split)
next
  case (SetFor src)
  assume "stale k s"
  then show ?thesis using SetFor
    by (simp add: set_for_def Let_def stale_start stale_cleanup stale_fields[of "complete t" t for t])
qed (simp_all add: set_active_def stale_start stale_cleanup ngOnDestroy_def
      stale_stream_closed stream_next_def
      stale_fields[of "complete t" t for t] stale_fields[of "set_progress p t" t for p t]
      stale_fields[of "set_speed p t" t for p t] stale_fields[of "dispatch el cbs t" t for el cbs t]
      split: js_value.split)

lemma inv_bind_run: "inv_bind s \<Longrightarrow> inv_bind (run es s)"
  by (induction es arbitrary: s) (simp_all add: inv_bind_step)

lemma stale_run: "stale k s \<Longrightarrow> stale k (run es s)"
  by (induction es arbitrary: s) (simp_all add: stale_step)

lemma all_stale_rebinds:
  "inv_bind s \<Longrightarrow> k < length (bindings s) \<Longrightarrow> rebinds e \<Longrightarrow> stale k (step e s)"
proof (cases e)
  case (SetFor src)
  assume "inv_bind s" "k < length (bindings s)"
  then show ?thesis using SetFor all_stale_cleanup[of s k]
    by (simp add: set_for_def Let_def stale_start stale_fields[of "complete t" t for t])
qed (simp_all add: all_stale_start all_stale_cleanup ngOnDestroy_def)

lemma promise_settled_stale:
  "stale k s \<Longrightarrow> promise_settled k s = s\<lparr> settled := settled (promise_settled k s) \<rparr>"
  by (cases "bindings s ! k") (auto simp: promise_settled_def stale_def Let_def)

lemmas machine_defs = initial_def set_for_def set_active_def set_progress_def clamp_percent_def
  cleanup_def ngOnDestroy_def call_removePendingHandler_def call_cleanupSubscription_def
  start_def animateIndeterminate_def request_next_def requestAnimationFrame_def
  cancelAnimationFrame_def addEventListener_def removeEventListener_def
  fadeOutProgressBar_def transitionTo100Percent_def complete_def resolve_def
  isPromise_def isSubscribable_def sync_outcomes_def sync_notifications_def promise_settled_def stream_next_def stream_closed_def
  Math_max_def Math_min_def js_eq_def js_sub_def truthy_def Let_def

lemma clamp_percent_Fin: "clamp_percent (Fin x) = Fin (max 0 (min (100 * x) 100))"
  by (simp add: clamp_percent_def Math_max_def Math_min_def max_def min_def)

lemma complete_determinate [simp]: "determinate (complete s) = determinate s"
  by (simp add: complete_unfold Let_def addEventListener_def)

lemma set_progress_determinate: "determinate (set_progress (Some v) s)"
  by (simp add: set_progress_def Let_def)

lemma animateIndeterminate_determinate:
  "determinate s \<Longrightarrow> animateIndeterminate s = s\<lparr> animationRequest := None \<rparr>"
  by (simp add: animateIndeterminate_def)

lemma step_TransitionEnd_Wrapper:
  assumes "inv_dom s" "removePendingHandler s = RemoveWrapperListener k"
  shows "step (TransitionEnd Wrapper) s
         = s\<lparr> listeners := [], removePendingHandler := NoopHandler, progressPercentage := Fin 0 \<rparr>"
proof -
  have l: "listeners s = [(Wrapper, FadeOutCallback k)]"
    using assms by (simp add: inv_dom_def)
  show ?thesis
    using assms(2) l
    by (simp add: call_removePendingHandler_def removeEventListener_def Let_def)
qed

lemma step_TransitionEnd_Indicator:
  assumes "inv_dom s" "removePendingHandler s = RemoveIndicatorListener k" "k \<in> set (reactions s)"
  shows "step (TransitionEnd Indicator) s
         = fadeOutProgressBar (s\<lparr> listeners := [], removePendingHandler := NoopHandler,
              resolved := k # resolved s \<rparr>)"
proof -
  have l: "listeners s = [(Indicator, TransitionCallback k)]"
    using assms by (simp add: inv_dom_def)
  have r: "k \<notin> set (resolved s)"
    using assms by (simp add: inv_dom_def)
  show ?thesis
    using assms(2,3) l r
    by (simp add: call_removePendingHandler_def removeEventListener_def Let_def resolve_def)
qed

lemma complete_transition:
  assumes "isActive s" "determinate s" "\<not> js_eq (progressPercentage s) (Fin 100)"
  shows "removePendingHandler (complete s) = RemoveIndicatorListener (nextClosure s)"
    and "nextClosure s \<in> set (reactions (complete s))"
    and "\<not> isActive (complete s)"
    and "progressPercentage (complete s) = Fin 100"
    and "progressBarVisible (complete s) = progressBarVisible s"
  using assms by (simp_all add: complete_unfold Let_def addEventListener_def)

lemma sqrt_100: "sqrt 100 = 10"
proof -
  have "sqrt ((10::real)\<^sup>2) = 10" by simp
  then show ?thesis by simp
qed

lemma spec_indeterminate_law_0: "spec_indeterminate_law delta speedFactor 0 = 0"
  by (simp add: spec_indeterminate_law_def)

lemma unit_suffix_no_digit:
  "unit_suffix suf \<Longrightarrow> takeWhile is_digit suf = [] \<and> dropWhile is_digit suf = suf"
  by (auto simp: unit_suffix_def is_digit_def)

lemma unit_suffix_no_dot: "unit_suffix suf \<Longrightarrow> suf = [] \<or> hd suf \<noteq> CHR ''.''"
  by (auto simp: unit_suffix_def)

lemma takeWhile_digits:
  "list_all is_digit ds \<Longrightarrow> takeWhile is_digit r = [] \<Longrightarrow> takeWhile is_digit (ds @ r) = ds"
  by (simp add: list_all_iff)

lemma dropWhile_digits:
  "list_all is_digit ds \<Longrightarrow> takeWhile is_digit r = [] \<Longrightarrow> dropWhile is_digit (ds @ r) = r"
  by (cases r) (simp_all add: list_all_iff split: if_splits)

lemma dot_no_digit: "\<not> is_digit CHR ''.''"
  by (simp add: is_digit_def)

lemma all_digits:
  "list_all is_digit ds \<Longrightarrow> takeWhile is_digit ds = ds"
  "list_all is_digit ds \<Longrightarrow> dropWhile is_digit ds = []"
  by (simp_all add: list_all_iff)

lemma speed_match_accepts:
  assumes "number_literal ds fr" "unit_suffix suf"
  shows "speed_match (ds @ fr @ suf) = Some (ds @ fr, suf)"
proof (cases fr)
  case Nil
  have d: "ds \<noteq> []" "list_all is_digit ds" using assms(1) by (simp_all add: number_literal_def)
  have m: "\<not> is_digit CHR ''m''" "\<not> is_digit CHR ''s''" by (simp_all add: is_digit_def)
  consider "suf = []" | "suf = ''ms''" | "suf = ''s''"
    using assms(2) by (auto simp: unit_suffix_def)
  then show ?thesis
  proof cases
    case 1
    then show ?thesis using Nil d by (simp add: speed_match_def Let_def all_digits)
  next
    case 2
    have "takeWhile is_digit (ds @ ''ms'') = ds" "dropWhile is_digit (ds @ ''ms'') = ''ms''"
      using d m by (simp_all add: takeWhile_digits dropWhile_digits)
    then show ?thesis using Nil d 2 by (simp add: speed_match_def Let_def)
  next
    case 3
    have "takeWhile is_digit (ds @ ''s'') = ds" "dropWhile is_digit (ds @ ''s'') = ''s''"
      using d m by (simp_all add: takeWhile_digits dropWhile_digits)
    then show ?thesis using Nil d 3 by (simp add: speed_match_def Let_def)
  qed
next
  case (Cons c fs)
  have d: "ds \<noteq> []" "list_all is_digit ds" "c = CHR ''.''" "fs \<noteq> []" "list_all is_digit fs"
    using assms(1) Cons by (simp_all add: number_literal_def)
  note u = unit_suffix_no_digit[OF assms(2)]
  have t: "takeWhile is_digit (ds @ CHR ''.'' # fs @ suf) = ds"
      "dropWhile is_digit (ds @ CHR ''.'' # fs @ suf) = CHR ''.'' # fs @ suf"
    using d by (simp_all add: takeWhile_digits dropWhile_digits dot_no_digit)
  have f: "takeWhile is_digit (fs @ suf) = fs" "dropWhile is_digit (fs @ suf) = suf"
    using d u by (simp_all add: takeWhile_digits dropWhile_digits)
  show ?thesis
    using Cons d t f assms(2)
    by (simp add: speed_match_def Let_def unit_suffix_def)
qed

lemma list_all_takeWhile: "list_all P (takeWhile P xs)"
  by (induction xs) simp_all

lemma speed_match_sound:
  assumes "speed_match str = Some (m1, m2)"
  shows "\<exists>ds fr. number_literal ds fr \<and> unit_suffix m2 \<and> m1 = ds @ fr \<and> str = ds @ fr @ m2"
proof -
  let ?ds = "takeWhile is_digit str" and ?r = "dropWhile is_digit str"
  have s: "str = ?ds @ ?r" by simp
  have n: "?ds \<noteq> []" using assms by (auto simp: speed_match_def Let_def split: if_splits)
  show ?thesis
  proof (cases "\<exists>r'. ?r = CHR ''.'' # r' \<and> takeWhile is_digit r' \<noteq> []")
    case True
    then obtain r' where r: "?r = CHR ''.'' # r'" "takeWhile is_digit r' \<noteq> []" by blast
    let ?fs = "takeWhile is_digit r'"
    have m: "m1 = ?ds @ CHR ''.'' # ?fs" "m2 = dropWhile is_digit r'" "unit_suffix m2"
      using assms n r by (auto simp: speed_match_def Let_def unit_suffix_def split: if_splits)
    have "number_literal ?ds (CHR ''.'' # ?fs)"
      using n r(2) by (simp add: number_literal_def list_all_takeWhile)
    moreover have "str = ?ds @ (CHR ''.'' # ?fs) @ m2"
      using s r(1) m(2) by (metis append_Cons takeWhile_dropWhile_id)
    ultimately show ?thesis using m by blast
  next
    case False
    then have m: "m1 = ?ds" "m2 = ?r" "unit_suffix m2"
      using assms n
      by (auto simp: speed_match_def Let_def unit_suffix_def split: if_splits list.splits)
    have "number_literal ?ds []" using n by (simp add: number_literal_def list_all_takeWhile)
    moreover have "str = ?ds @ [] @ m2" using m(2) by simp
    ultimately show ?thesis using m by (metis append_Nil2)
  qed
qed

lemma parseFloat_literal:
  assumes "number_literal ds fr"
  shows "parseFloat (ds @ fr) = real (decimal ds) + real (decimal (tl fr)) / 10 ^ length (tl fr)"
proof (cases fr)
  case Nil
  have "list_all is_digit ds" using assms by (simp add: number_literal_def)
  then show ?thesis
    using Nil by (simp add: parseFloat_def Let_def decimal_def all_digits)
next
  case (Cons c fs)
  have d: "list_all is_digit ds" "c = CHR ''.''" "list_all is_digit fs"
    using assms Cons by (simp_all add: number_literal_def)
  have t: "takeWhile is_digit (ds @ CHR ''.'' # fs) = ds"
      "dropWhile is_digit (ds @ CHR ''.'' # fs) = CHR ''.'' # fs"
    using d by (simp_all add: takeWhile_digits dropWhile_digits dot_no_digit)
  show ?thesis using Cons d(2,3) t by (simp add: parseFloat_def Let_def all_digits)
qed

lemma set_speed_literal:
  assumes "number_literal ds fr" "unit_suffix suf"
  shows "set_speed (SpeedString (ds @ fr @ suf)) s
           = s\<lparr> indeterminateSpeed :=
                 Fin ((real (decimal ds) + real (decimal (tl fr)) / 10 ^ length (tl fr))
                      * (if suf = ''s'' then 1000 else 1)) \<rparr>"
  using speed_match_accepts[OF assms] parseFloat_literal[OF assms(1)]
  by (simp add: set_speed_def Let_def)

lemma set_speed_no_match:
  assumes "\<not> (\<exists>ds fr suf. number_literal ds fr \<and> unit_suffix suf \<and> str = ds @ fr @ suf)"
  shows "set_speed (SpeedString str) s = s"
proof (cases "speed_match str")
  case None
  then show ?thesis by (simp add: set_speed_def)
next
  case (Some m)
  obtain m1 m2 where "m = (m1, m2)" by (cases m)
  then have "\<exists>ds fr. number_literal ds fr \<and> unit_suffix m2 \<and> m1 = ds @ fr \<and> str = ds @ fr @ m2"
    using Some speed_match_sound by simp
  then show ?thesis using assms by blast
qed

lemma clamp_percent_cases:
  "clamp_percent v =
     (case v of NaN \<Rightarrow> NaN | NegInfinity \<Rightarrow> Fin 0
      | Fin x \<Rightarrow> Fin (max 0 (min (100 * x) 100)) | PosInfinity \<Rightarrow> Fin 100)"
  by (cases v)
     (simp_all add: clamp_percent_def Math_max_def Math_min_def signed_infinity_def max_def min_def)

lemma completion_sequence:
  assumes "inv_dom s" "isActive s" "determinate s" "\<not> js_eq (progressPercentage s) (Fin 100)"
  shows "let s1 = complete s;
             s2 = step (TransitionEnd Indicator) s1;
             s3 = step (TransitionEnd Wrapper) s2 in
           \<not> isActive s2 \<and> \<not> progressBarVisible s2 \<and> progressPercentage s2 = Fin 100
           \<and> removePendingHandler s2 = RemoveWrapperListener (Suc (nextClosure s))
           \<and> \<not> isActive s3 \<and> \<not> progressBarVisible s3 \<and> progressPercentage s3 = Fin 0
           \<and> determinate s3 \<and> listeners s3 = [] \<and> removePendingHandler s3 = NoopHandler"
proof -
  define s1 where "s1 = complete s"
  define s2 where "s2 = step (TransitionEnd Indicator) s1"
  define s3 where "s3 = step (TransitionEnd Wrapper) s2"
  note t = complete_transition[OF assms(2,3,4), folded s1_def]
  have i1: "inv_dom s1" unfolding s1_def by (rule inv_dom_complete[OF assms(1)])
  have d1: "determinate s1" "nextClosure s1 = Suc (nextClosure s)"
    using assms by (simp_all add: s1_def complete_unfold Let_def addEventListener_def)
  have e2: "s2 = fadeOutProgressBar (s1\<lparr> listeners := [], removePendingHandler := NoopHandler,
              resolved := nextClosure s # resolved s1 \<rparr>)"
    unfolding s2_def by (rule step_TransitionEnd_Indicator[OF i1 t(1) t(2)])
  have i2: "inv_dom s2" unfolding s2_def by (rule inv_dom_step[OF i1])
  have h2: "removePendingHandler s2 = RemoveWrapperListener (nextClosure s1)"
    by (simp add: e2)
  have f2: "\<not> isActive s2" "\<not> progressBarVisible s2" "progressPercentage s2 = Fin 100" "determinate s2"
    using t d1 by (simp_all add: e2)
  have e3: "s3 = s2\<lparr> listeners := [], removePendingHandler := NoopHandler, progressPercentage := Fin 0 \<rparr>"
    unfolding s3_def by (rule step_TransitionEnd_Wrapper[OF i2 h2])
  have "\<not> isActive s2 \<and> \<not> progressBarVisible s2 \<and> progressPercentage s2 = Fin 100
           \<and> removePendingHandler s2 = RemoveWrapperListener (Suc (nextClosure s))
           \<and> \<not> isActive s3 \<and> \<not> progressBarVisible s3 \<and> progressPercentage s3 = Fin 0
           \<and> determinate s3 \<and> listeners s3 = [] \<and> removePendingHandler s3 = NoopHandler"
    using f2 h2 d1 by (simp add: e3)
  then show ?thesis unfolding s1_def s2_def s3_def Let_def by blast
qed

lemma complete_transition_listener:
  assumes "isActive s" "determinate s" "\<not> js_eq (progressPercentage s) (Fin 100)"
  shows "(Indicator, TransitionCallback (nextClosure s)) \<in> set (listeners (complete s))"
  using assms by (simp add: complete_unfold Let_def addEventListener_def)

lemma dismissed_fields:
  "isActive s' = isActive s \<Longrightarrow> progressBarVisible s' = progressBarVisible s \<Longrightarrow>
   dismissed s' = dismissed s"
  by (simp add: dismissed_def)














section \<open>The claims\<close>

subsection \<open>C1\<close>

text \<open>
  C1, amended. In a frame that runs while the bar is active and indeterminate and a
  previous frame time \<open>l\<close> exists, with the percentage \<open>p\<close> at most 100 and the speed \<open>v\<close>
  finite and not zero, the percentage becomes
  \<open>p + delta * (900 / v) * (1 - sqrt (100 - p))\<^sup>2\<close> clamped to \<open>[0, 100]\<close>, where \<open>delta\<close> is
  the elapsed time in seconds: the root is taken of \<open>100 - p\<close>, and the speed factor is
  \<open>900 / v\<close>. The default speed is 500.
\<close>

theorem indeterminate_growth:
  assumes "isActive s" and "\<not> determinate s"
    and "lastAnimationFrame s = Some (Fin l)" and "l \<noteq> 0"
    and "progressPercentage s = Fin p" and "p \<le> 100"
    and "indeterminateSpeed s = Fin v" and "v \<noteq> 0"
  shows "progressPercentage (animateIndeterminate s)
           = Fin (max 0 (min 100 (p + (clock s - l) / 1000 * (900 / v) * (1 - sqrt (100 - p))\<^sup>2)))
         \<and> indeterminateSpeed initial = Fin 500"
proof -
  have d: "frame_delta s = Fin ((clock s - l) / 1000)"
    using assms(3) by (simp add: frame_delta_def js_sub_def)
  have a: "active_percent s
      = Fin (max 0 (min 100 (p + (clock s - l) / 1000 * (900 / v) * (1 - sqrt (100 - p))\<^sup>2)))"
    using assms(5,6,7,8)
    by (simp add: active_percent_def d js_sub_def Math_max_def Math_min_def Let_def max_def min_def)
  have "progressPercentage (animateIndeterminate s) = active_percent s"
    using assms(1,2,3,4)
    by (simp add: animateIndeterminate_def Let_def truthy_def request_next_def
        requestAnimationFrame_def active_percent_def frame_delta_def)
  then show ?thesis using a by (simp add: initial_def)
qed

theorem indeterminate_growth_witness:
  "(let s = run [SetSpeed (SpeedNumber (Fin 900)), Tick 1000, Start None, Tick 2000] initial in
      isActive s \<and> \<not> determinate s \<and> lastAnimationFrame s = Some (Fin 1000)
      \<and> progressPercentage s = Fin 0 \<and> indeterminateSpeed s = Fin 900 \<and> clock s = 2000
      \<and> progressPercentage (animateIndeterminate s) = Fin 81)"
proof -
  define s where "s = run [SetSpeed (SpeedNumber (Fin 900)), Tick 1000, Start None, Tick 2000] initial"
  have h: "isActive s" "\<not> determinate s" "lastAnimationFrame s = Some (Fin 1000)"
      "progressPercentage s = Fin 0" "indeterminateSpeed s = Fin 900" "clock s = 2000"
    by (simp_all add: s_def machine_defs set_speed_def)
  have n: "(1000::real) \<noteq> 0" "(0::real) \<le> 100" "(900::real) \<noteq> 0" by simp_all
  have "progressPercentage (animateIndeterminate s) = Fin 81"
    using indeterminate_growth[OF h(1) h(2) h(3) n(1) h(4) n(2) h(5) n(3)] h(6)
    by (simp add: sqrt_100)
  then show ?thesis using h unfolding s_def Let_def by blast
qed

text \<open>
  C1 as stated does not hold. With the speed 900, one second after the first frame of a
  fresh cycle the percentage goes from 0 to 81; the stated law,
  \<open>delta * speedFactor * (1 - sqrt (1 - percentage / 100))\<^sup>2\<close>, adds nothing at 0, whatever the
  speed factor.
\<close>

theorem indeterminate_growth_counterexample:
  "progressPercentage
     (step (AnimationFrame 1)
        (run [SetSpeed (SpeedNumber (Fin 900)), Tick 1000, Start None, Tick 2000] initial)) = Fin 81
   \<and> Fin 81 \<noteq> Fin (spec_indeterminate_law ((2000 - 1000) / 1000) (900 / 900) 0)"
  by (simp add: machine_defs set_speed_def active_percent_def frame_delta_def sqrt_100
      spec_indeterminate_law_0)

subsection \<open>C2\<close>




subsection \<open>C3\<close>

text \<open>
  C3. Setting the progress to \<^verbatim>\<open>null\<close> after a determinate value should switch the mode
  back to indeterminate and resume the simulation loop. The code switches the mode and
  does not restart the loop: after a determinate value and one frame the loop has ended,
  and \<^verbatim>\<open>progress = null\<close> then leaves an active, indeterminate bar with no frame
  requested, whose percentage stays at 30 however long the clock runs; \<^verbatim>\<open>complete\<close> in
  that state deactivates the bar and leaves it visible, with no frame and no listener
  pending.
\<close>

theorem null_progress_leaves_bar_stuck:
  "(let s = run [Start None, Tick 16, SetProgress (Some (Fin (3/10))), AnimationFrame 1] initial;
        s' = step (SetProgress None) s;
        s'' = step Complete s' in
      isActive s \<and> determinate s \<and> isActive s' \<and> \<not> determinate s'
      \<and> frames s' = [] \<and> animationRequest s' = None \<and> progressPercentage s' = Fin 30
      \<and> run [Tick 5000, AnimationFrame 1, AnimationFrame 2] s' = s'\<lparr> clock := 5000 \<rparr>
      \<and> \<not> isActive s'' \<and> progressBarVisible s'' \<and> frames s'' = [] \<and> listeners s'' = [])"
  by (simp add: machine_defs)

subsection \<open>C4\<close>

text \<open>
  C4, amended. For a fraction \<open>0 \<le> f < 1\<close> the setter makes the mode determinate and the
  percentage \<open>100 * f\<close>, not rounded, and changes nothing else. For \<open>f = 1\<close>, in a reachable
  state that is active and not at 100, it runs the completion sequence: the bar becomes
  inactive and goes to 100; the indicator's transition end starts the fade-out (the bar
  is no longer visible); the wrapper's transition end resets the percentage to 0. The
  mode stays determinate.
\<close>

theorem progress_fraction:
  "(0 \<le> f \<and> f < 1 \<longrightarrow>
      set_progress (Some (Fin f)) s = s\<lparr> determinate := True, progressPercentage := Fin (100 * f) \<rparr>)
   \<and> (isActive (run es initial) \<and> progressPercentage (run es initial) \<noteq> Fin 100 \<longrightarrow>
        (let s1 = set_progress (Some (Fin 1)) (run es initial);
             s2 = step (TransitionEnd Indicator) s1;
             s3 = step (TransitionEnd Wrapper) s2 in
           \<not> isActive s1 \<and> determinate s1 \<and> progressPercentage s1 = Fin 100
           \<and> progressBarVisible s1 = progressBarVisible (run es initial)
           \<and> \<not> isActive s2 \<and> \<not> progressBarVisible s2 \<and> progressPercentage s2 = Fin 100
           \<and> \<not> isActive s3 \<and> \<not> progressBarVisible s3 \<and> progressPercentage s3 = Fin 0
           \<and> determinate s3 \<and> listeners s3 = [] \<and> removePendingHandler s3 = NoopHandler))"
proof (intro conjI impI)
  assume f: "0 \<le> f \<and> f < 1"
  then have c: "clamp_percent (Fin f) = Fin (100 * f)"
    by (simp add: clamp_percent_Fin max_def min_def)
  show "set_progress (Some (Fin f)) s = s\<lparr> determinate := True, progressPercentage := Fin (100 * f) \<rparr>"
    using f by (auto simp: set_progress_def c Let_def js_eq_def)
next
  let ?s = "run es initial"
  let ?d = "?s\<lparr> determinate := True \<rparr>"
  assume a: "isActive ?s \<and> progressPercentage ?s \<noteq> Fin 100"
  have i: "inv_dom ?s" by (rule inv_dom_run[OF inv_dom_initial])
  have c: "clamp_percent (Fin 1) = Fin 100" by (simp add: clamp_percent_Fin)
  define s1 where "s1 = set_progress (Some (Fin 1)) ?s"
  define s2 where "s2 = step (TransitionEnd Indicator) s1"
  define s3 where "s3 = step (TransitionEnd Wrapper) s2"
  have e: "s1 = complete ?d"
    using a by (auto simp: s1_def set_progress_def c Let_def js_eq_def)
  have pre: "isActive ?d" "determinate ?d" "\<not> js_eq (progressPercentage ?d) (Fin 100)"
    using a by (simp_all add: js_eq_def)
  note t = complete_transition[OF pre, folded e]
  have i1: "inv_dom s1" unfolding s1_def by (rule inv_dom_set_progress[OF i])
  have d1: "determinate s1" unfolding s1_def by (rule set_progress_determinate)
  have e2: "s2 = fadeOutProgressBar (s1\<lparr> listeners := [], removePendingHandler := NoopHandler,
              resolved := nextClosure ?d # resolved s1 \<rparr>)"
    unfolding s2_def by (rule step_TransitionEnd_Indicator[OF i1 t(1) t(2)])
  have i2: "inv_dom s2" unfolding s2_def by (rule inv_dom_step[OF i1])
  have h2: "removePendingHandler s2 = RemoveWrapperListener (nextClosure s1)"
    by (simp add: e2)
  have f2: "\<not> isActive s2" "\<not> progressBarVisible s2" "progressPercentage s2 = Fin 100" "determinate s2"
    using t d1 by (simp_all add: e2)
  have e3: "s3 = s2\<lparr> listeners := [], removePendingHandler := NoopHandler, progressPercentage := Fin 0 \<rparr>"
    unfolding s3_def by (rule step_TransitionEnd_Wrapper[OF i2 h2])
  have "\<not> isActive s1 \<and> determinate s1 \<and> progressPercentage s1 = Fin 100
           \<and> progressBarVisible s1 = progressBarVisible ?s
           \<and> \<not> isActive s2 \<and> \<not> progressBarVisible s2 \<and> progressPercentage s2 = Fin 100
           \<and> \<not> isActive s3 \<and> \<not> progressBarVisible s3 \<and> progressPercentage s3 = Fin 0
           \<and> determinate s3 \<and> listeners s3 = [] \<and> removePendingHandler s3 = NoopHandler"
    using t d1 f2 by (simp add: e3)
  then show "let s1 = set_progress (Some (Fin 1)) ?s;
             s2 = step (TransitionEnd Indicator) s1;
             s3 = step (TransitionEnd Wrapper) s2 in
           \<not> isActive s1 \<and> determinate s1 \<and> progressPercentage s1 = Fin 100
           \<and> progressBarVisible s1 = progressBarVisible ?s
           \<and> \<not> isActive s2 \<and> \<not> progressBarVisible s2 \<and> progressPercentage s2 = Fin 100
           \<and> \<not> isActive s3 \<and> \<not> progressBarVisible s3 \<and> progressPercentage s3 = Fin 0
           \<and> determinate s3 \<and> listeners s3 = [] \<and> removePendingHandler s3 = NoopHandler"
    unfolding s1_def s2_def s3_def Let_def by blast
qed

theorem progress_fraction_witness:
  "set_progress (Some (Fin (1/8))) initial
     = initial\<lparr> determinate := True, progressPercentage := Fin (100 * (1/8)) \<rparr>
   \<and> (let s = run [Start None, SetProgress (Some (Fin (3/10)))] initial;
          s1 = set_progress (Some (Fin 1)) s;
          s2 = step (TransitionEnd Indicator) s1;
          s3 = step (TransitionEnd Wrapper) s2 in
        isActive s \<and> progressPercentage s = Fin 30
        \<and> \<not> isActive s1 \<and> determinate s1 \<and> progressPercentage s1 = Fin 100 \<and> progressBarVisible s1
        \<and> \<not> progressBarVisible s2
        \<and> \<not> isActive s3 \<and> \<not> progressBarVisible s3 \<and> progressPercentage s3 = Fin 0 \<and> determinate s3)"
proof -
  define es where "es = [Start None, SetProgress (Some (Fin (3/10)))]"
  have h: "isActive (run es initial)" "progressPercentage (run es initial) = Fin 30"
      "progressBarVisible (run es initial)"
    by (simp_all add: es_def machine_defs)
  have n: "progressPercentage (run es initial) \<noteq> Fin 100" using h(2) by simp
  have f: "(0::real) \<le> 1/8 \<and> (1/8 :: real) < 1" by simp
  note t = progress_fraction[of "1/8" initial es]
  have A: "set_progress (Some (Fin (1/8))) initial
     = initial\<lparr> determinate := True, progressPercentage := Fin (100 * (1/8)) \<rparr>"
    using t f by blast
  have B: "let s1 = set_progress (Some (Fin 1)) (run es initial);
             s2 = step (TransitionEnd Indicator) s1;
             s3 = step (TransitionEnd Wrapper) s2 in
           \<not> isActive s1 \<and> determinate s1 \<and> progressPercentage s1 = Fin 100
           \<and> progressBarVisible s1 = progressBarVisible (run es initial)
           \<and> \<not> isActive s2 \<and> \<not> progressBarVisible s2 \<and> progressPercentage s2 = Fin 100
           \<and> \<not> isActive s3 \<and> \<not> progressBarVisible s3 \<and> progressPercentage s3 = Fin 0
           \<and> determinate s3 \<and> listeners s3 = [] \<and> removePendingHandler s3 = NoopHandler"
    using t h(1) n by blast
  show ?thesis
    using A B h unfolding es_def Let_def by blast
qed

text \<open>
  C4 as stated does not hold: the fraction \<open>1/8\<close> gives the percentage \<open>12.5\<close>, which is
  not \<open>round (100 * 1/8) = 13\<close>.
\<close>

theorem progress_fraction_counterexample:
  "progressPercentage (set_progress (Some (Fin (1/8))) initial) = Fin (25/2)
   \<and> Fin (25/2) \<noteq> Fin (real_of_int (round (100 * (1/8) :: real)))"
proof -
  have "round (25/2 :: real) = 13" by (simp add: round_def)
  then show ?thesis by (simp add: machine_defs)
qed

subsection \<open>C5\<close>

text \<open>
  C5. Once a promise binding has been replaced (by \<^verbatim>\<open>for\<close> or \<^verbatim>\<open>start\<close>) or torn down
  (\<^verbatim>\<open>ngOnDestroy\<close>), its settlement, whenever it comes and whatever its outcome, does not
  call \<^verbatim>\<open>complete\<close> and changes no field of the progress bar: the state after it differs
  from the state before at most in the record of which promises have settled.
\<close>

theorem stale_settlement_ignored:
  assumes "k < length (bindings (run es initial))" and "rebinds e"
  shows "let s = run es' (step e (run es initial)) in
         step (PromiseSettled k r) s = s\<lparr> settled := settled (step (PromiseSettled k r) s) \<rparr>"
proof -
  have "inv_bind (run es initial)" by (rule inv_bind_run[OF inv_bind_initial])
  then have "stale k (step e (run es initial))" using assms by (rule all_stale_rebinds)
  then have "stale k (run es' (step e (run es initial)))" by (rule stale_run)
  then show ?thesis using promise_settled_stale by (simp add: Let_def)
qed

theorem stale_settlement_ignored_witness:
  "(let s = run [Tick 5] (step (SetFor (Some (Source True False [] [])))
                (run [SetFor (Some (Source True False [] []))] initial)) in
    step (PromiseSettled 0 (Rejected (JSOther ''failed''))) s
      = s\<lparr> settled := settled (step (PromiseSettled 0 (Rejected (JSOther ''failed''))) s) \<rparr>
    \<and> isActive s \<and> settled (step (PromiseSettled 0 (Rejected (JSOther ''failed''))) s) = [0])"
proof -
  have k: "0 < length (bindings (run [SetFor (Some (Source True False [] []))] initial))"
    by (simp add: machine_defs)
  have r: "rebinds (SetFor (Some (Source True False [] [])))" by simp
  show ?thesis
    using stale_settlement_ignored[OF k r, of "[Tick 5]" "Rejected (JSOther ''failed'')"]
    by (simp add: machine_defs)
qed

subsection \<open>C6\<close>

text \<open>
  C6, amended. A numeric progress update \<open>v\<close>, with \<open>c\<close> the value times 100 clamped
  to \<open>[0, 100]\<close>: the mode becomes determinate, and from then on a frame of the
  indeterminate loop does nothing and requests no further frame; when \<open>c\<close> is not 100 the
  percentage becomes \<open>c\<close> and nothing else changes; when \<open>c\<close> equals the current
  percentage nothing but the mode changes, and nothing at all in determinate mode. When
  \<open>c\<close> is 100 and differs from the current percentage the setter stores nothing and
  calls \<^verbatim>\<open>complete\<close>: on an inactive bar nothing but the mode changes; on an active bar
  the completion sequence begins (the bar becomes inactive and goes to 100, waiting for
  the indicator's transition end), and in a reachable state that transition end starts
  the fade-out and the wrapper's transition end resets the percentage to 0.
\<close>

theorem numeric_progress_update:
  "(let c = clamp_percent v; s' = set_progress (Some v) s in
     c = (case v of NaN \<Rightarrow> NaN | NegInfinity \<Rightarrow> Fin 0
          | Fin x \<Rightarrow> Fin (max 0 (min (100 * x) 100)) | PosInfinity \<Rightarrow> Fin 100)
     \<and> determinate s'
     \<and> animateIndeterminate s' = s'\<lparr> animationRequest := None \<rparr>
     \<and> (\<not> js_eq c (Fin 100) \<longrightarrow>
          s' = s\<lparr> determinate := True, progressPercentage := c \<rparr>)
     \<and> (js_eq c (progressPercentage s) \<longrightarrow> s' = s\<lparr> determinate := True \<rparr>)
     \<and> (determinate s \<and> js_eq c (progressPercentage s) \<longrightarrow> s' = s)
     \<and> (js_eq c (Fin 100) \<and> \<not> js_eq c (progressPercentage s) \<and> \<not> isActive s \<longrightarrow>
          s' = s\<lparr> determinate := True \<rparr>)
     \<and> (js_eq c (Fin 100) \<and> \<not> js_eq c (progressPercentage s) \<and> isActive s \<longrightarrow>
          \<not> isActive s' \<and> progressPercentage s' = Fin 100
          \<and> progressBarVisible s' = progressBarVisible s
          \<and> removePendingHandler s' = RemoveIndicatorListener (nextClosure s)
          \<and> (Indicator, TransitionCallback (nextClosure s)) \<in> set (listeners s')
          \<and> nextClosure s \<in> set (reactions s')))
   \<and> (let r = run es initial; c = clamp_percent v in
        js_eq c (Fin 100) \<and> \<not> js_eq c (progressPercentage r) \<and> isActive r \<longrightarrow>
          (let s1 = set_progress (Some v) r;
               s2 = step (TransitionEnd Indicator) s1;
               s3 = step (TransitionEnd Wrapper) s2 in
             \<not> isActive s2 \<and> \<not> progressBarVisible s2 \<and> progressPercentage s2 = Fin 100
             \<and> removePendingHandler s2 = RemoveWrapperListener (Suc (nextClosure r))
             \<and> \<not> isActive s3 \<and> \<not> progressBarVisible s3 \<and> progressPercentage s3 = Fin 0
             \<and> determinate s3 \<and> listeners s3 = [] \<and> removePendingHandler s3 = NoopHandler))"
proof -
  let ?c = "clamp_percent v" and ?s' = "set_progress (Some v) s"
  let ?d = "s\<lparr> determinate := True \<rparr>"
  have d: "determinate ?s'" by (rule set_progress_determinate)
  have 1: "?s' = s\<lparr> determinate := True, progressPercentage := ?c \<rparr>" if "\<not> js_eq ?c (Fin 100)"
    using that by (auto simp: set_progress_def Let_def js_eq_def)
  have 2: "?s' = s\<lparr> determinate := True \<rparr>" if "js_eq ?c (progressPercentage s)"
    using that by (simp add: set_progress_def Let_def)
  have 3: "?s' = s" if "determinate s" "js_eq ?c (progressPercentage s)"
    using that by (simp add: set_progress_def Let_def)
  have 4: "?s' = complete ?d"
    if "js_eq ?c (Fin 100)" "\<not> js_eq ?c (progressPercentage s)"
    using that by (simp add: set_progress_def Let_def)
  have 5: "?s' = ?d"
    if "js_eq ?c (Fin 100)" "\<not> js_eq ?c (progressPercentage s)" "\<not> isActive s"
    using 4[OF that(1,2)] that(3) by (simp add: complete_def)
  have 6: "\<not> isActive ?s' \<and> progressPercentage ?s' = Fin 100
          \<and> progressBarVisible ?s' = progressBarVisible s
          \<and> removePendingHandler ?s' = RemoveIndicatorListener (nextClosure s)
          \<and> (Indicator, TransitionCallback (nextClosure s)) \<in> set (listeners ?s')
          \<and> nextClosure s \<in> set (reactions ?s')"
    if a: "js_eq ?c (Fin 100)" "\<not> js_eq ?c (progressPercentage s)" "isActive s"
  proof -
    have pre: "isActive ?d" "determinate ?d" "\<not> js_eq (progressPercentage ?d) (Fin 100)"
      using a by (auto simp: js_eq_def)
    show ?thesis
      using complete_transition[OF pre] complete_transition_listener[OF pre]
      by (simp add: 4[OF a(1,2)])
  qed
  let ?r = "run es initial"
  let ?e = "?r\<lparr> determinate := True \<rparr>"
  have 7: "let s1 = set_progress (Some v) ?r;
               s2 = step (TransitionEnd Indicator) s1;
               s3 = step (TransitionEnd Wrapper) s2 in
             \<not> isActive s2 \<and> \<not> progressBarVisible s2 \<and> progressPercentage s2 = Fin 100
             \<and> removePendingHandler s2 = RemoveWrapperListener (Suc (nextClosure ?r))
             \<and> \<not> isActive s3 \<and> \<not> progressBarVisible s3 \<and> progressPercentage s3 = Fin 0
             \<and> determinate s3 \<and> listeners s3 = [] \<and> removePendingHandler s3 = NoopHandler"
    if a: "js_eq ?c (Fin 100)" "\<not> js_eq ?c (progressPercentage ?r)" "isActive ?r"
  proof -
    have i: "inv_dom ?e" using inv_dom_run[OF inv_dom_initial, of es] by simp
    have pre: "isActive ?e" "determinate ?e" "\<not> js_eq (progressPercentage ?e) (Fin 100)"
      using a by (auto simp: js_eq_def)
    have e: "set_progress (Some v) ?r = complete ?e"
      using a by (simp add: set_progress_def Let_def)
    show ?thesis
      using completion_sequence[OF i pre] by (simp add: e Let_def)
  qed
  show ?thesis
    using clamp_percent_cases[of v] d animateIndeterminate_determinate[OF d] 1 2 3 5 6 7
    by (simp add: Let_def)
qed

theorem numeric_progress_update_witness:
  "(let s = run [Start None] initial; s' = set_progress (Some (Fin (3/10))) s in
      \<not> determinate s \<and> determinate s'
      \<and> animateIndeterminate s' = s'\<lparr> animationRequest := None \<rparr>
      \<and> s' = s\<lparr> determinate := True, progressPercentage := Fin 30 \<rparr>)
   \<and> (let s = run [Start None, SetProgress (Some (Fin (3/10)))] initial;
          s1 = set_progress (Some (Fin 2)) s;
          s2 = step (TransitionEnd Indicator) s1;
          s3 = step (TransitionEnd Wrapper) s2 in
      set_progress (Some (Fin (3/10))) s = s
      \<and> isActive s \<and> \<not> isActive s1 \<and> progressPercentage s1 = Fin 100
      \<and> removePendingHandler s1 = RemoveIndicatorListener 0
      \<and> \<not> progressBarVisible s2 \<and> progressPercentage s2 = Fin 100
      \<and> \<not> isActive s3 \<and> \<not> progressBarVisible s3 \<and> progressPercentage s3 = Fin 0)
   \<and> set_progress (Some (Fin 1)) initial = initial\<lparr> determinate := True \<rparr>"
proof -
  define s where "s = run [Start None] initial"
  define es where "es = [Start None, SetProgress (Some (Fin (3/10)))]"
  define t where "t = run es initial"
  have c: "clamp_percent (Fin (3/10)) = Fin 30" "clamp_percent (Fin 2) = Fin 100"
      "clamp_percent (Fin 1) = Fin 100"
    by (simp_all add: clamp_percent_Fin)
  have s: "\<not> determinate s" by (simp add: s_def machine_defs)
  have t: "determinate t" "progressPercentage t = Fin 30" "isActive t" "nextClosure t = 0"
    by (simp_all add: t_def es_def machine_defs)
  have n: "\<not> isActive initial" "progressPercentage initial = Fin 0"
    by (simp_all add: initial_def)
  have A: "\<not> determinate s \<and> determinate (set_progress (Some (Fin (3/10))) s)
      \<and> animateIndeterminate (set_progress (Some (Fin (3/10))) s)
          = (set_progress (Some (Fin (3/10))) s)\<lparr> animationRequest := None \<rparr>
      \<and> set_progress (Some (Fin (3/10))) s = s\<lparr> determinate := True, progressPercentage := Fin 30 \<rparr>"
    using numeric_progress_update[of "Fin (3/10)" s es] c s
    by (simp add: Let_def js_eq_def animateIndeterminate_determinate)
  have B: "set_progress (Some (Fin (3/10))) t = t"
    using numeric_progress_update[of "Fin (3/10)" t es] c t by (simp add: Let_def js_eq_def)
  note u = numeric_progress_update[of "Fin 2" t es, folded t_def]
  have C: "\<not> isActive (set_progress (Some (Fin 2)) t)"
      "progressPercentage (set_progress (Some (Fin 2)) t) = Fin 100"
      "removePendingHandler (set_progress (Some (Fin 2)) t) = RemoveIndicatorListener 0"
    using u c t by (simp_all add: Let_def js_eq_def)
  have D: "let s1 = set_progress (Some (Fin 2)) t;
               s2 = step (TransitionEnd Indicator) s1;
               s3 = step (TransitionEnd Wrapper) s2 in
             \<not> progressBarVisible s2 \<and> progressPercentage s2 = Fin 100
             \<and> \<not> isActive s3 \<and> \<not> progressBarVisible s3 \<and> progressPercentage s3 = Fin 0"
    using u c t by (simp add: Let_def js_eq_def)
  have E: "set_progress (Some (Fin 1)) initial = initial\<lparr> determinate := True \<rparr>"
    using numeric_progress_update[of "Fin 1" initial es] c n by (simp add: Let_def js_eq_def)
  show ?thesis
    using A B C D E t(3) unfolding s_def t_def es_def Let_def by blast
qed

text \<open>
  C6 as stated does not hold. On an inactive bar a progress of 1 clamps to 100, which
  differs from the percentage 0, and no completion sequence is triggered: only the mode
  changes, no listener is registered and the bar stays invisible at 0.
\<close>

theorem numeric_progress_counterexample:
  "(let s' = set_progress (Some (Fin 1)) initial in
      \<not> isActive initial \<and> clamp_percent (Fin 1) = Fin 100 \<and> progressPercentage initial = Fin 0
      \<and> s' = initial\<lparr> determinate := True \<rparr>
      \<and> progressPercentage s' = Fin 0 \<and> \<not> progressBarVisible s'
      \<and> listeners s' = [] \<and> frames s' = [] \<and> removePendingHandler s' = NoopHandler)"
  by (simp add: machine_defs)

subsection \<open>C7\<close>

text \<open>
  C7. The \<^verbatim>\<open>speed\<close> setter stores a number as it is, unless it is \<^verbatim>\<open>NaN\<close>, which it
  ignores. A string made of a number literal and an optional suffix \<^verbatim>\<open>ms\<close> or \<^verbatim>\<open>s\<close> sets the
  speed to the literal's decimal value, times 1000 for the suffix \<^verbatim>\<open>s\<close>; so \<^verbatim>\<open>"1s"\<close> gives
  1000 and \<^verbatim>\<open>"500ms"\<close> gives 500. Every other string leaves the state, and so the speed,
  as it is; the setter has no failing branch.
\<close>

theorem speed_setter:
  "(set_speed (SpeedNumber n) s = (if n = NaN then s else s\<lparr> indeterminateSpeed := n \<rparr>))
   \<and> (number_literal ds fr \<and> unit_suffix suf \<longrightarrow>
        set_speed (SpeedString (ds @ fr @ suf)) s
          = s\<lparr> indeterminateSpeed :=
                Fin ((real (decimal ds) + real (decimal (tl fr)) / 10 ^ length (tl fr))
                     * (if suf = ''s'' then 1000 else 1)) \<rparr>)
   \<and> (\<not> (\<exists>ds fr suf. number_literal ds fr \<and> unit_suffix suf \<and> str = ds @ fr @ suf) \<longrightarrow>
        set_speed (SpeedString str) s = s)
   \<and> set_speed (SpeedString ''1s'') s = s\<lparr> indeterminateSpeed := Fin 1000 \<rparr>
   \<and> set_speed (SpeedString ''500ms'') s = s\<lparr> indeterminateSpeed := Fin 500 \<rparr>"
proof -
  have 1: "set_speed (SpeedNumber n) s = (if n = NaN then s else s\<lparr> indeterminateSpeed := n \<rparr>)"
    by (simp add: set_speed_def)
  have 4: "set_speed (SpeedString ''1s'') s = s\<lparr> indeterminateSpeed := Fin 1000 \<rparr>"
    by (simp add: set_speed_def speed_match_def parseFloat_def is_digit_def decimal_def
        digit_value_def)
  have 5: "set_speed (SpeedString ''500ms'') s = s\<lparr> indeterminateSpeed := Fin 500 \<rparr>"
    by (simp add: set_speed_def speed_match_def parseFloat_def is_digit_def decimal_def
        digit_value_def)
  show ?thesis
    using 1 4 5 set_speed_literal[of ds fr suf s] set_speed_no_match[of str s] by blast
qed

theorem speed_setter_witness:
  "number_literal ''0'' ''.5'' \<and> unit_suffix ''s''
   \<and> set_speed (SpeedString ''0.5s'') initial = initial\<lparr> indeterminateSpeed := Fin 500 \<rparr>
   \<and> set_speed (SpeedString ''fast'') initial = initial
   \<and> set_speed (SpeedString ''1e3'') initial = initial
   \<and> set_speed (SpeedNumber NaN) initial = initial
   \<and> set_speed (SpeedNumber (Fin 250)) initial = initial\<lparr> indeterminateSpeed := Fin 250 \<rparr>"
proof -
  have l: "number_literal ''0'' ''.5''" "unit_suffix ''s''"
    by (simp_all add: number_literal_def unit_suffix_def is_digit_def)
  have v: "(real (decimal ''0'') + real (decimal (tl ''.5'')) / 10 ^ length (tl ''.5''))
             * (if ''s'' = ''s'' then 1000 else 1) = 500"
    by (simp add: decimal_def digit_value_def)
  have nd: "\<not> is_digit CHR ''f''" by (simp add: is_digit_def)
  have n1: "\<not> (\<exists>ds fr suf. number_literal ds fr \<and> unit_suffix suf \<and> ''fast'' = ds @ fr @ suf)"
  proof
    assume "\<exists>ds fr suf. number_literal ds fr \<and> unit_suffix suf \<and> ''fast'' = ds @ fr @ suf"
    then obtain ds fr suf where h: "number_literal ds fr" "''fast'' = ds @ fr @ suf" by blast
    then obtain d ds' where "ds = d # ds'" "is_digit d"
      by (cases ds) (auto simp: number_literal_def)
    then show False using h(2) nd by simp
  qed
  have A: "set_speed (SpeedString ''0.5s'') initial = initial\<lparr> indeterminateSpeed := Fin 500 \<rparr>"
    using speed_setter[of NaN initial "''0''" "''.5''" "''s''" "''fast''"] l v by simp
  have B: "set_speed (SpeedString ''fast'') initial = initial"
    using speed_setter[of NaN initial "''0''" "''.5''" "''s''" "''fast''"] n1 by blast
  have C: "set_speed (SpeedNumber NaN) initial = initial"
    using speed_setter[of NaN initial "''0''" "''.5''" "''s''" "''fast''"] by simp
  have D: "set_speed (SpeedNumber (Fin 250)) initial = initial\<lparr> indeterminateSpeed := Fin 250 \<rparr>"
    using speed_setter[of "Fin 250" initial "''0''" "''.5''" "''s''" "''fast''"] by simp
  have E: "set_speed (SpeedString ''1e3'') initial = initial"
    by (simp add: set_speed_def speed_match_def is_digit_def)
  show ?thesis using l A B C D E by blast
qed

subsection \<open>C8\<close>




subsection \<open>C9\<close>



subsection \<open>C10\<close>

text \<open>
  C10. \<^verbatim>\<open>complete\<close> on an inactive progress bar returns the state as it is: no field and no
  pending handle changes, no transition and no fade-out begins.
\<close>

theorem complete_inactive_noop: "\<not> isActive s \<Longrightarrow> complete s = s"
  by (simp add: complete_def)

theorem complete_inactive_noop_witness:
  "\<not> isActive initial \<and> complete initial = initial"
proof -
  have h: "\<not> isActive initial" by (simp add: initial_def)
  show ?thesis using h complete_inactive_noop[OF h] by simp
qed

end
